theory Spec2Isabelle
  imports Complex_Main
begin

section \<open>Data model of the chart configuration (chart-config.js)\<close>

text \<open>
  A configuration is a tree of JavaScript values as the manager holds it in memory. It
  comes from JSON text and from the objects that callers pass to \<^verbatim>\<open>updateConfig\<close>, so
  it can hold what JSON text cannot: \<^verbatim>\<open>Infinity\<close> (\<^verbatim>\<open>JSON.parse\<close> makes it from \<^verbatim>\<open>1e400\<close>),
  \<^verbatim>\<open>NaN\<close> (\<^verbatim>\<open>parseInt('')\<close>), \<^verbatim>\<open>undefined\<close> as the value of a property, and arrays with
  named properties next to their elements.
  \<^item> A finite number is a real; a number is falsy exactly when it is \<open>0\<close> or \<^verbatim>\<open>NaN\<close>.
  \<^item> A string value is the list of its UTF-16 code units, so that the Chinese display
    strings of the defaults can be written down; \<open>ustr\<close> turns an ASCII literal into
    that form.
  \<^item> An object is the list of its own properties in enumeration order. Property names
    are written as \<open>string\<close>. A JavaScript object never holds a name twice: \<open>wf\<close>
    states this invariant of the representation. \<open>put\<close> leaves a name it replaces in
    its place and appends a new one; JavaScript would list a new name that is an array
    index before the others, which changes the order of an object and not what it
    holds.
  \<^item> An array is the list of its elements and the list of its named properties.
  \<^item> A property that is not there is \<open>None\<close> of an option.
  \<open>get\<close> and \<open>put\<close> read and write the properties an object holds itself. Where the
  code reads or assigns a name that the object does not hold but inherits from
  \<^verbatim>\<open>Object.prototype\<close> (\<open>inherited\<close>), the operations below say so.
\<close>

datatype nonfinite = PosInfinity | NegInfinity | NaN

datatype json =
    JUndefined
  | JNull
  | JBool bool
  | JNum real
  | JNonFinite nonfinite
  | JStr "nat list"
  | JArr "json list" "(string \<times> json) list"
  | JObj "(string \<times> json) list"

type_synonym obj = "(string \<times> json) list"

definition ustr :: "string \<Rightarrow> nat list" where
  "ustr s = map of_char s"

text \<open>Truthiness, \<^verbatim>\<open>typeof v === 'object'\<close> and \<^verbatim>\<open>Array.isArray(v)\<close>.\<close>

fun truthy :: "json \<Rightarrow> bool" where
  "truthy JUndefined = False"
| "truthy JNull = False"
| "truthy (JBool b) = b"
| "truthy (JNum x) = (x \<noteq> 0)"
| "truthy (JNonFinite n) = (n \<noteq> NaN)"
| "truthy (JStr s) = (s \<noteq> [])"
| "truthy (JArr xs props) = True"
| "truthy (JObj fs) = True"

fun typeof_object :: "json \<Rightarrow> bool" where
  "typeof_object JNull = True"
| "typeof_object (JArr xs props) = True"
| "typeof_object (JObj fs) = True"
| "typeof_object _ = False"

fun isArray :: "json \<Rightarrow> bool" where
  "isArray (JArr xs props) = True"
| "isArray _ = False"


text \<open>Reading \<^verbatim>\<open>obj[key]\<close> and the assignment \<^verbatim>\<open>obj[key] = v\<close> on an object.\<close>

definition get :: "obj \<Rightarrow> string \<Rightarrow> json option" where
  "get fs k = map_of fs k"

fun put :: "string \<Rightarrow> json \<Rightarrow> obj \<Rightarrow> obj" where
  "put k v [] = [(k, v)]"
| "put k v ((k', v') # fs) = (if k' = k then (k, v) # fs else (k', v') # put k v fs)"

text \<open>The decimal name of an array index, and the names \<^verbatim>\<open>for (const key in src)\<close>
  enumerates with the values \<^verbatim>\<open>src[key]\<close>: the properties of an object, the indices of an
  array or of a string (an array then its named properties), nothing for a number, a
  boolean, \<^verbatim>\<open>null\<close> or \<^verbatim>\<open>undefined\<close>. \<open>is_index\<close> holds for the names that are written as
  an array index is: decimal digits without a leading zero.\<close>

definition digit :: "nat \<Rightarrow> char" where
  "digit d = ''0123456789'' ! d"

function show_nat :: "nat \<Rightarrow> string" where
  "show_nat n = (if n < 10 then [digit n] else show_nat (n div 10) @ [digit (n mod 10)])"
  by pat_completeness auto
termination
  by (relation "measure (\<lambda>n. n)") auto

declare show_nat.simps [simp del]

definition is_index :: "string \<Rightarrow> bool" where
  "is_index key =
     (key \<noteq> [] \<and> list_all (\<lambda>c. c \<in> set ''0123456789'') key
      \<and> (hd key \<noteq> CHR ''0'' \<or> key = ''0''))"

fun for_in :: "json \<Rightarrow> (string \<times> json) list" where
  "for_in (JObj fs) = fs"
| "for_in (JArr xs props) = zip (map show_nat [0..<length xs]) xs @ props"
| "for_in (JStr s) = zip (map show_nat [0..<length s]) (map (\<lambda>u. JStr [u]) s)"
| "for_in _ = []"

text \<open>
  \<^verbatim>\<open>JSON.parse(JSON.stringify(v))\<close>, the copy that \<^verbatim>\<open>mergeConfig\<close> starts from, and, as the
  value that the text denotes, the text \<^verbatim>\<open>JSON.stringify(v)\<close> that \<^verbatim>\<open>saveConfig\<close> stores.
  \<^verbatim>\<open>Infinity\<close> and \<^verbatim>\<open>NaN\<close> become \<^verbatim>\<open>null\<close>; a property whose value is \<^verbatim>\<open>undefined\<close> is left
  out of an object, an element \<^verbatim>\<open>undefined\<close> of an array becomes \<^verbatim>\<open>null\<close>; the named
  properties of an array are left out. \<open>copy_fields\<close> copies the properties of an
  object, \<open>copy_elements\<close> the elements of an array.
\<close>

fun json_copy :: "json \<Rightarrow> json"
  and copy_fields :: "(string \<times> json) list \<Rightarrow> (string \<times> json) list"
  and copy_elements :: "json list \<Rightarrow> json list" where
  "json_copy JUndefined = JNull"
| "json_copy JNull = JNull"
| "json_copy (JBool b) = JBool b"
| "json_copy (JNum x) = JNum x"
| "json_copy (JNonFinite n) = JNull"
| "json_copy (JStr s) = JStr s"
| "json_copy (JArr xs props) = JArr (copy_elements xs) []"
| "json_copy (JObj fs) = JObj (copy_fields fs)"
| "copy_fields [] = []"
| "copy_fields ((k, v) # fs) =
     (if v = JUndefined then copy_fields fs else (k, json_copy v) # copy_fields fs)"
| "copy_elements [] = []"
| "copy_elements (x # xs) = json_copy x # copy_elements xs"

text \<open>
  The names every object inherits from \<^verbatim>\<open>Object.prototype\<close> in a browser. Their values
  are functions, and for \<^verbatim>\<open>__proto__\<close> the prototype object itself: all truthy, none
  with a property that \<^verbatim>\<open>for ... in\<close> would enumerate.
\<close>

definition Object_prototype_names :: "string list" where
  "Object_prototype_names =
     [''constructor'', ''hasOwnProperty'', ''isPrototypeOf'', ''propertyIsEnumerable'',
      ''toLocaleString'', ''toString'', ''valueOf'', ''__proto__'',
      ''__defineGetter__'', ''__defineSetter__'', ''__lookupGetter__'', ''__lookupSetter__'']"

definition inherited :: "string \<Rightarrow> bool" where
  "inherited name = (name \<in> set Object_prototype_names)"

text \<open>
  What a call can end with instead of returning: a \<open>TypeError\<close> that it throws, or
  \<open>NotJson\<close>, which is no behaviour of the code but the mark that the code has gone
  where the model does not follow: it has written an element, the length or an object
  into an array, or read or assigned a property through the prototype chain.
\<close>

datatype failure = TypeError | NotJson

text \<open>
  Reading \<^verbatim>\<open>v[name]\<close>, where \<open>v\<close> is itself the result of reading a property:
  \<^verbatim>\<open>undefined\<close> and \<^verbatim>\<open>null\<close> throw a TypeError; an object gives the value it holds,
  else what it inherits, else \<^verbatim>\<open>undefined\<close>. Arrays, strings, numbers and booleans have
  prototypes of their own, which the model does not list.
\<close>

datatype looked_up = Undefined | Value json | Inherited

fun read_property :: "json option \<Rightarrow> string \<Rightarrow> failure + looked_up" where
  "read_property None name = Inl TypeError"
| "read_property (Some JUndefined) name = Inl TypeError"
| "read_property (Some JNull) name = Inl TypeError"
| "read_property (Some (JObj fs)) name =
     Inr (case get fs name of
            Some v \<Rightarrow> Value v
          | None \<Rightarrow> if inherited name then Inherited else Undefined)"
| "read_property (Some _) name = Inl NotJson"

section \<open>mergeConfig\<close>

text \<open>
  \<^verbatim>\<open>
  mergeConfig(target, source) {
      const result = JSON.parse(JSON.stringify(target));
      function merge(obj, src) {
          for (const key in src) {
              if (src[key] && typeof src[key] === 'object' && !Array.isArray(src[key])) {
                  obj[key] = obj[key] || {};
                  merge(obj[key], src[key]);
              } else {
                  obj[key] = src[key];
              }
          }
      }
      merge(result, source);
      return result;
  }
  \<close>
  \<open>merge ob src\<close> runs the loop on the object \<open>ob\<close> over the enumerated entries
  \<open>src\<close> and returns the object as the loop leaves it. The test of the \<^verbatim>\<open>if\<close> holds
  exactly for the values \<open>JObj fs\<close> (lemma \<open>merge_test_iff\<close>), which is how the
  \<open>case\<close> reads it. \<open>or_empty\<close> is \<^verbatim>\<open>obj[key] || {}\<close>. \<open>mergeConfig\<close> runs it on the
  JSON copy of the target.

  When \<open>obj[key]\<close> is an array, the recursive call assigns the properties of
  \<open>src[key]\<close> to that array: \<open>assign_named\<close>, which follows the assignment of a name
  that is no index and not \<^verbatim>\<open>length\<close>, with a value that is no object to merge.

  The class body is strict mode code. When \<open>obj[key]\<close> is a truthy number, boolean or
  string, the recursive call assigns a property to a primitive, which throws a
  \<open>TypeError\<close> at the first name of \<open>src[key]\<close>; with no name to assign, nothing
  happens. The model does not follow the code (\<open>NotJson\<close>)
  \<^item> when that first name is \<^verbatim>\<open>__proto__\<close>: the assignment runs the inherited setter
    and does not throw;
  \<^item> when \<open>obj[key]\<close> is an array and \<open>src[key]\<close> assigns an element, the length,
    \<^verbatim>\<open>__proto__\<close> or an object to it;
  \<^item> when \<open>obj\<close> does not hold \<open>key\<close> but inherits it and \<open>src[key]\<close> is an object:
    \<^verbatim>\<open>obj[key] || {}\<close> is then the inherited function or prototype, and the recursive
    call writes to it;
  \<^item> when \<open>obj\<close> does not hold \<^verbatim>\<open>__proto__\<close> and the \<^verbatim>\<open>else\<close> branch assigns it: the
    assignment runs the inherited setter.
  \<open>leaves_model\<close> is the condition of the last two.
\<close>

definition or_empty :: "json option \<Rightarrow> json" where
  "or_empty cur = (case cur of None \<Rightarrow> JObj [] | Some c \<Rightarrow> if truthy c then c else JObj [])"

definition leaves_model :: "obj \<Rightarrow> string \<Rightarrow> json \<Rightarrow> bool" where
  "leaves_model ob key v =
     (get ob key = None \<and> (case v of JObj fs \<Rightarrow> inherited key | _ \<Rightarrow> key = ''__proto__''))"

fun is_plain_object :: "json \<Rightarrow> bool" where
  "is_plain_object (JObj fs) = True"
| "is_plain_object _ = False"

fun assign_named :: "obj \<Rightarrow> (string \<times> json) list \<Rightarrow> failure + obj" where
  "assign_named props [] = Inr props"
| "assign_named props ((key, v) # src) =
     (if is_index key \<or> key = ''length'' \<or> key = ''__proto__'' \<or> is_plain_object v
      then Inl NotJson
      else assign_named (put key v props) src)"

fun merge :: "obj \<Rightarrow> (string \<times> json) list \<Rightarrow> failure + obj" where
  "merge ob [] = Inr ob"
| "merge ob ((key, v) # src) =
     (if leaves_model ob key v then Inl NotJson
      else case v of
        JObj fs \<Rightarrow>
          (case or_empty (get ob key) of
             JObj sub \<Rightarrow>
               (case merge sub fs of
                  Inl e \<Rightarrow> Inl e
                | Inr sub' \<Rightarrow> merge (put key (JObj sub') ob) src)
           | JArr xs props \<Rightarrow>
               (case assign_named props fs of
                  Inl e \<Rightarrow> Inl e
                | Inr props' \<Rightarrow> merge (put key (JArr xs props') ob) src)
           | _ \<Rightarrow> (if fs = [] then merge ob src
                  else if fst (hd fs) = ''__proto__'' then Inl NotJson else Inl TypeError))
      | _ \<Rightarrow> merge (put key v ob) src)"

definition mergeConfig :: "obj \<Rightarrow> json \<Rightarrow> failure + obj" where
  "mergeConfig target source = merge (copy_fields target) (for_in source)"

section \<open>The loop and Object.prototype\<close>

text \<open>
  \<open>merge\<close> follows the loop in a page that has left \<^verbatim>\<open>Object.prototype\<close> as the browser
  made it, and stops where the loop would reach it. The loop does reach it: for a
  source that holds the name \<^verbatim>\<open>__proto__\<close> with an object value, as \<^verbatim>\<open>JSON.parse\<close> makes
  one from the text \<^verbatim>\<open>{"__proto__": {"x": 1}}\<close>, the value of \<^verbatim>\<open>obj[key] || {}\<close> is
  \<^verbatim>\<open>Object.prototype\<close>, the assignment of it to \<^verbatim>\<open>obj[key]\<close> changes nothing, and the
  recursive call assigns the properties of \<^verbatim>\<open>src[key]\<close> to \<^verbatim>\<open>Object.prototype\<close>. A
  property assigned there is enumerable and every object inherits it: from then on
  \<^verbatim>\<open>for (const key in src)\<close> enumerates its name after the names that \<open>src\<close> holds
  itself, \<^verbatim>\<open>src[key]\<close> reads the inherited value, and \<^verbatim>\<open>obj[key] = src[key]\<close> makes it
  a property of \<open>obj\<close>.

  \<open>merge_chain prototype ob src\<close> is the loop with the list \<open>prototype\<close> of the
  properties that the page has added to \<^verbatim>\<open>Object.prototype\<close>. It runs the rounds for the
  names that \<open>src\<close> holds itself and returns how they end together with the list as
  they leave it; the rounds for the inherited names follow in \<open>copy_inherited\<close>.
  \<^item> \<open>inherited_keys\<close> are the names the loop enumerates after those of \<open>src\<close>; a browser
    fixes the names of a \<^verbatim>\<open>for ... in\<close> loop when the loop starts, so they are taken
    from the list as it is then.
  \<^item> \<open>merge_target\<close> is \<^verbatim>\<open>obj[key] || {}\<close> read through the prototype chain; it is \<open>None\<close>
    where that is \<^verbatim>\<open>Object.prototype\<close> (for \<^verbatim>\<open>__proto__\<close>), a built-in function, or an
    object that \<^verbatim>\<open>Object.prototype\<close> holds.
  \<^item> \<open>merge_prototype\<close> is the recursive call on \<^verbatim>\<open>Object.prototype\<close>. Numbers, strings,
    booleans, \<^verbatim>\<open>null\<close> and arrays are followed there under names that it does not
    hold from the start; an object value or such a name is \<open>NotJson\<close>. The rounds of
    this call for inherited names assign to \<^verbatim>\<open>Object.prototype\<close> what it holds already.
  \<^item> \<open>copy_inherited\<close>: a round for an inherited name takes the \<^verbatim>\<open>else\<close> branch, since
    the inherited value is no object, and makes the value a property of \<open>obj\<close>.
  \<^item> A number, boolean or string as the target throws at the first name that the loop
    enumerates, as in \<open>merge\<close>; an array as the target is followed as in \<open>merge\<close> where
    the loop has no inherited name to copy to it.
  \<open>mergeConfig_chain\<close> is \<^verbatim>\<open>mergeConfig\<close> on top of it. \<^verbatim>\<open>for ... in\<close> over \<^verbatim>\<open>null\<close> or
  \<^verbatim>\<open>undefined\<close> does not run a single round, over any other source it runs the
  inherited names as well. \<^verbatim>\<open>JSON.parse(JSON.stringify(target))\<close> copies what \<open>target\<close>
  holds itself.
\<close>

definition inherited_keys :: "obj \<Rightarrow> (string \<times> json) list \<Rightarrow> string list" where
  "inherited_keys prototype src = filter (\<lambda>key. get src key = None) (map fst prototype)"

definition enumerated :: "obj \<Rightarrow> (string \<times> json) list \<Rightarrow> string list" where
  "enumerated prototype src = map fst src @ inherited_keys prototype src"

fun merge_prototype :: "obj \<Rightarrow> (string \<times> json) list \<Rightarrow> failure + obj" where
  "merge_prototype prototype [] = Inr prototype"
| "merge_prototype prototype ((key, v) # src) =
     (case v of
        JObj fs \<Rightarrow> Inl NotJson
      | _ \<Rightarrow> if inherited key then Inl NotJson else merge_prototype (put key v prototype) src)"

fun copy_inherited :: "obj \<Rightarrow> string list \<Rightarrow> obj \<Rightarrow> failure + obj" where
  "copy_inherited prototype [] ob = Inr ob"
| "copy_inherited prototype (key # keys) ob =
     (case get prototype key of
        None \<Rightarrow> copy_inherited prototype keys ob
      | Some (JObj fs) \<Rightarrow> Inl NotJson
      | Some v \<Rightarrow> copy_inherited prototype keys (put key v ob))"

definition merge_target :: "obj \<Rightarrow> obj \<Rightarrow> string \<Rightarrow> json option" where
  "merge_target prototype ob key =
     (case get ob key of
        Some c \<Rightarrow> Some (if truthy c then c else JObj [])
      | None \<Rightarrow>
          (case get prototype key of
             Some c \<Rightarrow> if truthy c then (case c of JObj sub \<Rightarrow> None | _ \<Rightarrow> Some c) else Some (JObj [])
           | None \<Rightarrow> if inherited key then None else Some (JObj [])))"

fun merge_chain :: "obj \<Rightarrow> obj \<Rightarrow> (string \<times> json) list \<Rightarrow> (failure + obj) \<times> obj" where
  "merge_chain prototype ob [] = (Inr ob, prototype)"
| "merge_chain prototype ob ((key, v) # src) =
     (case v of
        JObj fs \<Rightarrow>
          (case merge_target prototype ob key of
             None \<Rightarrow>
               (if key = ''__proto__'' \<and> get prototype key = None
                then (case merge_prototype prototype fs of
                        Inl e \<Rightarrow> (Inl e, prototype)
                      | Inr prototype' \<Rightarrow> merge_chain prototype' ob src)
                else (Inl NotJson, prototype))
           | Some (JObj sub) \<Rightarrow>
               (case merge_chain prototype sub fs of
                  (Inl e, prototype') \<Rightarrow> (Inl e, prototype')
                | (Inr sub1, prototype') \<Rightarrow>
                    (case copy_inherited prototype' (inherited_keys prototype fs) sub1 of
                       Inl e \<Rightarrow> (Inl e, prototype')
                     | Inr sub2 \<Rightarrow> merge_chain prototype' (put key (JObj sub2) ob) src))
           | Some (JArr xs props) \<Rightarrow>
               (if inherited_keys prototype fs = []
                then (case assign_named props fs of
                        Inl e \<Rightarrow> (Inl e, prototype)
                      | Inr props' \<Rightarrow> merge_chain prototype (put key (JArr xs props') ob) src)
                else (Inl NotJson, prototype))
           | Some c \<Rightarrow>
               (if enumerated prototype fs = [] then merge_chain prototype (put key c ob) src
                else (Inl (if hd (enumerated prototype fs) = ''__proto__''
                           then NotJson else TypeError), prototype)))
      | _ \<Rightarrow>
          (if key = ''__proto__'' \<and> get ob key = None then (Inl NotJson, prototype)
           else merge_chain prototype (put key v ob) src))"

definition mergeConfig_chain :: "obj \<Rightarrow> obj \<Rightarrow> json \<Rightarrow> (failure + obj) \<times> obj" where
  "mergeConfig_chain prototype target source =
     (case source of
        JNull \<Rightarrow> (Inr (copy_fields target), prototype)
      | JUndefined \<Rightarrow> (Inr (copy_fields target), prototype)
      | _ \<Rightarrow>
          (case merge_chain prototype (copy_fields target) (for_in source) of
             (Inl e, prototype') \<Rightarrow> (Inl e, prototype')
           | (Inr r, prototype') \<Rightarrow>
               (case copy_inherited prototype' (inherited_keys prototype (for_in source)) r of
                  Inl e \<Rightarrow> (Inl e, prototype')
                | Inr r' \<Rightarrow> (Inr r', prototype'))))"

section \<open>ChartConfigManager\<close>

text \<open>
  The state of a manager and of the browser around it: the current config, the
  registered listeners in the order of their registration, local storage (a stored
  JSON text is written as the value it denotes), whether \<^verbatim>\<open>localStorage.setItem\<close>
  accepts a write (it throws when the quota is exceeded or storage is disabled), the
  calls made to listeners so far (listener, event name, data), and the lines written
  by \<^verbatim>\<open>console.error\<close>.

  A listener is a function, known here by a number; the same function can be
  registered more than once. \<open>behaviour\<close> says what a listener does when it is called
  with an event and its data: it can call \<^verbatim>\<open>addListener\<close> and \<^verbatim>\<open>removeListener\<close> of the
  manager, and then it returns or throws. The model does not follow a listener that
  changes the object it is given or calls another method of the manager.

  The page has left \<^verbatim>\<open>Object.prototype\<close> as the browser made it: the operations merge
  with \<open>mergeConfig\<close>, and a call that would reach \<^verbatim>\<open>Object.prototype\<close> ends in
  \<open>NotJson\<close>.
\<close>

datatype log_entry = SaveFailed | ListenerFailed nat | ImportFailed

datatype action = Subscribe nat | Unsubscribe nat

record manager =
  config :: obj
  listeners :: "nat list"
  behaviour :: "nat \<Rightarrow> string \<Rightarrow> json \<Rightarrow> action list \<times> bool"
  storage :: "string \<Rightarrow> json option"
  accepts :: "string \<Rightarrow> json \<Rightarrow> bool"
  calls :: "(nat \<times> string \<times> json) list"
  console :: "log_entry list"

text \<open>
  \<^verbatim>\<open>
  addListener(listener) { this.listeners.push(listener); }
  removeListener(listener) {
      const index = this.listeners.indexOf(listener);
      if (index > -1) { this.listeners.splice(index, 1); }
  }
  \<close>
  \<^verbatim>\<open>indexOf\<close> finds the first occurrence of the listener and \<^verbatim>\<open>splice(index, 1)\<close>
  removes it; nothing happens when it is not registered.
\<close>

definition addListener :: "nat \<Rightarrow> manager \<Rightarrow> manager" where
  "addListener l m = m\<lparr>listeners := listeners m @ [l]\<rparr>"

definition removeListener :: "nat \<Rightarrow> manager \<Rightarrow> manager" where
  "removeListener l m = m\<lparr>listeners := remove1 l (listeners m)\<rparr>"

text \<open>
  \<^verbatim>\<open>
  notifyListeners(event, data) {
      this.listeners.forEach(listener => {
          try { listener(event, data); }
          catch (error) { console.error('...', error); }
      });
  }
  \<close>
  \<^verbatim>\<open>forEach\<close> reads the length of the array once, when it starts, and then visits the
  indices below that length in turn, each on the array as it is at that moment: an
  index that the array no longer has is passed over. \<open>for_each k n\<close> is the loop at
  index \<open>k\<close> with \<open>n\<close> indices to go. \<open>call_listener\<close> is one call of the callback: the
  listener, what it does to the registry, and the \<^verbatim>\<open>catch\<close>.
\<close>

fun act :: "action \<Rightarrow> manager \<Rightarrow> manager" where
  "act (Subscribe l) m = addListener l m"
| "act (Unsubscribe l) m = removeListener l m"

definition call_listener :: "nat \<Rightarrow> string \<Rightarrow> json \<Rightarrow> manager \<Rightarrow> manager" where
  "call_listener l event data m =
     (let m' = fold act (fst (behaviour m l event data))
                 (m\<lparr>calls := calls m @ [(l, event, data)]\<rparr>)
      in if snd (behaviour m l event data)
         then m'\<lparr>console := console m' @ [ListenerFailed l]\<rparr>
         else m')"

fun for_each :: "nat \<Rightarrow> nat \<Rightarrow> string \<Rightarrow> json \<Rightarrow> manager \<Rightarrow> manager" where
  "for_each k 0 event data m = m"
| "for_each k (Suc n) event data m =
     for_each (Suc k) n event data
       (if k < length (listeners m) then call_listener (listeners m ! k) event data m else m)"

definition notifyListeners :: "string \<Rightarrow> json \<Rightarrow> manager \<Rightarrow> manager" where
  "notifyListeners event data m = for_each 0 (length (listeners m)) event data m"

text \<open>
  \<^verbatim>\<open>
  saveConfig() {
      try {
          localStorage.setItem('abilityChartConfig', JSON.stringify(this.config));
          this.notifyListeners('configSaved', this.config);
      } catch (error) { console.error('...', error); }
  }
  \<close>
  What is stored is the text of the config, which denotes its JSON copy; the listeners
  are given the config itself.
\<close>

definition saveConfig :: "manager \<Rightarrow> manager" where
  "saveConfig m =
     (if accepts m ''abilityChartConfig'' (json_copy (JObj (config m)))
      then notifyListeners ''configSaved'' (JObj (config m))
             (m\<lparr>storage := (storage m)(''abilityChartConfig'' \<mapsto> json_copy (JObj (config m)))\<rparr>)
      else m\<lparr>console := console m @ [SaveFailed]\<rparr>)"

text \<open>
  \<^verbatim>\<open>
  updateConfig(newConfig) {
      this.config = this.mergeConfig(this.config, newConfig);
      this.saveConfig();
      this.notifyListeners('configUpdated', this.config);
  }
  \<close>
  \<open>Inl\<close> is the exception that leaves the call; the manager is then as it was, since
  the assignment to \<^verbatim>\<open>this.config\<close> comes after \<^verbatim>\<open>mergeConfig\<close> has returned.
\<close>

definition updateConfig :: "json \<Rightarrow> manager \<Rightarrow> failure + manager" where
  "updateConfig newConfig m =
     (case mergeConfig (config m) newConfig of
        Inl e \<Rightarrow> Inl e
      | Inr c \<Rightarrow>
          (let m' = saveConfig (m\<lparr>config := c\<rparr>)
           in Inr (notifyListeners ''configUpdated'' (JObj (config m')) m')))"

text \<open>The compiled-in defaults, \<^verbatim>\<open>DEFAULT_CHART_CONFIG\<close>.\<close>

definition DEFAULT_CHART_CONFIG :: obj where
  "DEFAULT_CHART_CONFIG =
    [(''chart'', JObj
       [(''width'', JNum 400),
        (''height'', JNum 400),
        (''backgroundColor'', JStr (ustr ''transparent'')),
        (''padding'', JNum 40),
        (''animationDuration'', JNum 1000),
        (''animationEasing'', JStr (ustr ''easeOutQuart''))]),
     (''radar'', JObj
       [(''levels'', JNum 5),
        (''levelStep'', JNum 20),
        (''maxValue'', JNum 100),
        (''showGrid'', JBool True),
        (''showAxes'', JBool True),
        (''showLabels'', JBool True),
        (''showValues'', JBool True),
        (''gridColor'', JStr (ustr ''rgba(255, 255, 255, 0.1)'')),
        (''axisColor'', JStr (ustr ''rgba(255, 255, 255, 0.2)'')),
        (''labelColor'', JStr (ustr ''#94a3b8'')),
        (''valueColor'', JStr (ustr ''#06b6d4''))]),
     (''series'', JArr
       [JObj
          [(''name'', JStr [24403, 21069, 33021, 21147]),
           (''color'', JStr (ustr ''#06b6d4'')),
           (''fillColor'', JStr (ustr ''rgba(6, 182, 212, 0.2)'')),
           (''strokeWidth'', JNum 2),
           (''pointRadius'', JNum 4),
           (''pointColor'', JStr (ustr ''#06b6d4'')),
           (''showPoints'', JBool True),
           (''showFill'', JBool True)],
        JObj
          [(''name'', JStr [30446, 26631, 33021, 21147]),
           (''color'', JStr (ustr ''#8b5cf6'')),
           (''fillColor'', JStr (ustr ''rgba(139, 92, 246, 0.1)'')),
           (''strokeWidth'', JNum 2),
           (''pointRadius'', JNum 3),
           (''pointColor'', JStr (ustr ''#8b5cf6'')),
           (''showPoints'', JBool True),
           (''showFill'', JBool False)]] []),
     (''labels'', JArr
       [JStr [21069, 31471, 24320, 21457],
        JStr [21518, 31471, 24320, 21457],
        JStr [31227, 21160, 24320, 21457],
        JStr [25968, 25454, 20998, 26512],
        JStr [39033, 30446, 31649, 29702],
        JStr [85, 73, 47, 85, 88, 35774, 35745]] []),
     (''interaction'', JObj
       [(''enableHover'', JBool True),
        (''enableClick'', JBool True),
        (''enableTooltip'', JBool True),
        (''hoverRadius'', JNum 8),
        (''hoverColor'', JStr (ustr ''#ffffff'')),
        (''tooltipBackground'', JStr (ustr ''rgba(0, 0, 0, 0.8)'')),
        (''tooltipTextColor'', JStr (ustr ''#ffffff'')),
        (''tooltipBorderRadius'', JNum 8),
        (''tooltipPadding'', JNum 12)]),
     (''animation'', JObj
       [(''enableEntryAnimation'', JBool True),
        (''enableHoverAnimation'', JBool True),
        (''enableUpdateAnimation'', JBool True),
        (''entryDelay'', JNum 100),
        (''hoverDuration'', JNum 200),
        (''updateDuration'', JNum 800)]),
     (''responsive'', JObj
       [(''enabled'', JBool True),
        (''breakpoints'', JObj
          [(''mobile'', JNum 480),
           (''tablet'', JNum 768),
           (''desktop'', JNum 1024)]),
        (''mobileConfig'', JObj
          [(''chart'', JObj
             [(''width'', JNum 280),
              (''height'', JNum 280),
              (''padding'', JNum 30)]),
           (''radar'', JObj [(''levels'', JNum 4)])]),
        (''tabletConfig'', JObj
          [(''chart'', JObj
             [(''width'', JNum 350),
              (''height'', JNum 350),
              (''padding'', JNum 35)])])]),
     (''themes'', JObj
       [(''dark'', JObj
          [(''chart'', JObj [(''backgroundColor'', JStr (ustr ''transparent''))]),
           (''radar'', JObj
             [(''gridColor'', JStr (ustr ''rgba(255, 255, 255, 0.1)'')),
              (''axisColor'', JStr (ustr ''rgba(255, 255, 255, 0.2)'')),
              (''labelColor'', JStr (ustr ''#94a3b8''))])]),
        (''light'', JObj
          [(''chart'', JObj [(''backgroundColor'', JStr (ustr ''#ffffff''))]),
           (''radar'', JObj
             [(''gridColor'', JStr (ustr ''rgba(0, 0, 0, 0.1)'')),
              (''axisColor'', JStr (ustr ''rgba(0, 0, 0, 0.2)'')),
              (''labelColor'', JStr (ustr ''#64748b''))])])])]"

text \<open>
  \<^verbatim>\<open>
  resetConfig() {
      this.config = JSON.parse(JSON.stringify(DEFAULT_CHART_CONFIG));
      this.saveConfig();
      this.notifyListeners('configReset', this.config);
  }
  \<close>
\<close>

definition resetConfig :: "manager \<Rightarrow> manager" where
  "resetConfig m =
     (let m' = saveConfig (m\<lparr>config := copy_fields DEFAULT_CHART_CONFIG\<rparr>)
      in notifyListeners ''configReset'' (JObj (config m')) m')"

text \<open>
  \<^verbatim>\<open>
  applyTheme(themeName) {
      const theme = this.config.themes[themeName];
      if (theme) {
          this.config = this.mergeConfig(this.config, theme);
          this.saveConfig();
          this.notifyListeners('themeApplied', { theme: themeName, config: this.config });
      }
  }
  \<close>
  \<open>apply_overrides\<close> is the body of the \<^verbatim>\<open>if\<close>, given the entries that \<^verbatim>\<open>mergeConfig\<close>
  enumerates in the theme. An inherited function or prototype is truthy and has none.
\<close>

definition apply_overrides ::
  "string \<Rightarrow> (string \<times> json) list \<Rightarrow> manager \<Rightarrow> failure + manager" where
  "apply_overrides themeName entries m =
     (case merge (copy_fields (config m)) entries of
        Inl e \<Rightarrow> Inl e
      | Inr c \<Rightarrow>
          (let m' = saveConfig (m\<lparr>config := c\<rparr>)
           in Inr (notifyListeners ''themeApplied''
                     (JObj [(''theme'', JStr (ustr themeName)),
                            (''config'', JObj (config m'))]) m')))"

definition applyTheme :: "string \<Rightarrow> manager \<Rightarrow> failure + manager" where
  "applyTheme themeName m =
     (case read_property (get (config m) ''themes'') themeName of
        Inl e \<Rightarrow> Inl e
      | Inr Undefined \<Rightarrow> Inr m
      | Inr (Value theme) \<Rightarrow>
          if truthy theme then apply_overrides themeName (for_in theme) m else Inr m
      | Inr Inherited \<Rightarrow> apply_overrides themeName [] m)"

text \<open>
  \<^verbatim>\<open>
  importConfig(configJson) {
      try {
          const importedConfig = JSON.parse(configJson);
          this.updateConfig(importedConfig);
          return true;
      } catch (error) { console.error('...', error); return false; }
  }
  \<close>
  The argument is what \<^verbatim>\<open>JSON.parse\<close> makes of the text: \<open>None\<close> when it throws a
  SyntaxError. The \<^verbatim>\<open>catch\<close> takes every exception.
\<close>

definition importConfig :: "json option \<Rightarrow> manager \<Rightarrow> failure + bool \<times> manager" where
  "importConfig parsed m =
     (case parsed of
        None \<Rightarrow> Inr (False, m\<lparr>console := console m @ [ImportFailed]\<rparr>)
      | Some importedConfig \<Rightarrow>
          (case updateConfig importedConfig m of
             Inl TypeError \<Rightarrow> Inr (False, m\<lparr>console := console m @ [ImportFailed]\<rparr>)
           | Inl NotJson \<Rightarrow> Inl NotJson
           | Inr m' \<Rightarrow> Inr (True, m')))"

text \<open>
  A sequence of calls on one manager. A call that throws leaves the manager as it was,
  and the sequence goes on with the next call. \<open>None\<close>: some call has left the model.
\<close>

datatype operation =
    UpdateConfig json
  | ApplyTheme string
  | ImportConfig "json option"
  | ResetConfig

fun perform :: "operation \<Rightarrow> manager \<Rightarrow> manager option" where
  "perform (UpdateConfig p) m =
     (case updateConfig p m of Inl TypeError \<Rightarrow> Some m | Inl NotJson \<Rightarrow> None | Inr m' \<Rightarrow> Some m')"
| "perform (ApplyTheme n) m =
     (case applyTheme n m of Inl TypeError \<Rightarrow> Some m | Inl NotJson \<Rightarrow> None | Inr m' \<Rightarrow> Some m')"
| "perform (ImportConfig t) m =
     (case importConfig t m of Inl e \<Rightarrow> None | Inr (ok, m') \<Rightarrow> Some m')"
| "perform ResetConfig m = Some (resetConfig m)"

fun run :: "operation list \<Rightarrow> manager \<Rightarrow> manager option" where
  "run [] m = Some m"
| "run (x # xs) m = (case perform x m of None \<Rightarrow> None | Some m' \<Rightarrow> run xs m')"

text \<open>
  \<open>quiet m\<close>: no listener that is registered changes the registry when it is called.
\<close>

definition quiet :: "manager \<Rightarrow> bool" where
  "quiet m = list_all (\<lambda>l. \<forall>event data. fst (behaviour m l event data) = []) (listeners m)"

text \<open>
  Managers to evaluate the operations on. \<open>example_manager\<close> holds a small config and
  two listeners, the first of which throws at every call;
  \<open>example_manager_storage_full\<close> lives in a browser whose local storage rejects every
  write; in \<open>example_manager_once\<close> the first listener unregisters itself when it is
  called, as a listener does that wants to be told once.
\<close>

definition example_config :: obj where
  "example_config =
     [(''chart'', JObj [(''width'', JNum 400)]),
      (''radar'', JObj [(''levels'', JNum 5), (''maxValue'', JNum 100)]),
      (''themes'', JObj
         [(''light'', JObj [(''chart'', JObj [(''backgroundColor'', JStr (ustr ''#ffffff''))])]),
          (''plain'', JNull)])]"

definition example_manager :: manager where
  "example_manager =
     \<lparr>config = example_config,
      listeners = [0, 1],
      behaviour = (\<lambda>l event data. ([], l = 0)),
      storage = (\<lambda>key. None),
      accepts = (\<lambda>key text. True),
      calls = [],
      console = []\<rparr>"

definition example_manager_storage_full :: manager where
  "example_manager_storage_full = example_manager\<lparr>accepts := (\<lambda>key text. False)\<rparr>"

definition example_manager_once :: manager where
  "example_manager_once =
     example_manager\<lparr>behaviour := (\<lambda>l event data. (if l = 0 then [Unsubscribe 0] else [], False))\<rparr>"

section \<open>What the specification says of the merge\<close>





text \<open>
  Reading a value along a path of keys: \<^verbatim>\<open>config.chart.width\<close> is the path
  \<open>[''chart'', ''width'']\<close>.
\<close>

fun get_path :: "obj \<Rightarrow> string list \<Rightarrow> json option" where
  "get_path ob [] = None"
| "get_path ob [k] = get ob k"
| "get_path ob (k # k' # ks) =
     (case get ob k of Some (JObj sub) \<Rightarrow> get_path sub (k' # ks) | _ \<Rightarrow> None)"

text \<open>
  Reading a property that a value holds itself: a property of an object, a named
  property of an array.
\<close>

fun own_property :: "json option \<Rightarrow> string \<Rightarrow> json option" where
  "own_property (Some (JObj fs)) k = get fs k"
| "own_property (Some (JArr xs props)) k = get props k"
| "own_property _ k = None"

text \<open>
  \<open>json_clean c\<close>: the config is its own JSON copy, as every config is that has been
  read from JSON text with finite numbers.
\<close>

definition json_clean :: "obj \<Rightarrow> bool" where
  "json_clean c = (copy_fields c = c)"

section \<open>Radar chart (setupCoreAbilityRadarChart)\<close>

text \<open>
  JavaScript numbers are read as real numbers, \<^verbatim>\<open>Math.PI\<close> as \<open>pi\<close>, \<^verbatim>\<open>Math.cos\<close>,
  \<^verbatim>\<open>Math.sin\<close> and \<^verbatim>\<open>Math.sqrt\<close> as the real functions: rounding is not modelled.
  Labels are strings, as the data model of the specification has them.
  \<^verbatim>\<open>
  const abilities = config.labels.map((label, index) => {
      const defaultValues = [92, 88, 85, 90, 95, 82];
      return { name: label, value: defaultValues[index] || 80, description: `${label}...` };
  });
  \<close>
\<close>

record ability =
  ability_name :: "nat list"
  ability_value :: real
  ability_description :: "nat list"

definition defaultValues :: "real list" where
  "defaultValues = [92, 88, 85, 90, 95, 82]"

definition make_ability :: "nat \<times> nat list \<Rightarrow> ability" where
  "make_ability e =
     \<lparr>ability_name = snd e,
      ability_value =
        (if fst e < length defaultValues \<and> defaultValues ! fst e \<noteq> 0
         then defaultValues ! fst e else 80),
      ability_description = snd e @ [30456, 20851, 33021, 21147]\<rparr>"

definition abilities_of :: "nat list list \<Rightarrow> ability list" where
  "abilities_of labels = map make_ability (enumerate 0 labels)"

text \<open>\<^verbatim>\<open>const angle = (index * 2 * Math.PI) / abilities.length - Math.PI / 2;\<close>\<close>

definition axis_angle :: "nat \<Rightarrow> nat \<Rightarrow> real" where
  "axis_angle n index = (real index * 2 * pi) / real n - pi / 2"

definition degrees :: "real \<Rightarrow> real" where
  "degrees a = a * 180 / pi"

text \<open>
  What \<^verbatim>\<open>drawAxes\<close> draws on the canvas: a stroked line from one point to another, a
  text, and a number followed by a percent sign.
\<close>

datatype draw =
    Line real real real real
  | FillText "nat list" real real
  | FillPercent real real real

text \<open>
  \<^verbatim>\<open>drawAxes(centerX, centerY, radius)\<close>: for each ability the spoke from the centre
  to \<open>(x, y)\<close>, then its label (on two lines when the name has more than two code
  units), then its value when the ability is the hovered one.
\<close>

definition draw_axis :: "real \<Rightarrow> real \<Rightarrow> real \<Rightarrow> int \<Rightarrow> nat \<Rightarrow> nat \<times> ability \<Rightarrow> draw list" where
  "draw_axis centerX centerY radius hovered n e =
     (let index = fst e; a = snd e;
          angle = axis_angle n index;
          x = centerX + cos angle * radius;
          y = centerY + sin angle * radius;
          isHighlighted = (hovered = int index);
          labelDistance = radius + 25;
          labelX = centerX + cos angle * labelDistance;
          labelY = centerY + sin angle * labelDistance;
          words = ability_name a
      in [Line centerX centerY x y]
         @ (if length words > 2
            then [FillText (take 2 words) labelX (labelY - 6),
                  FillText (drop 2 words) labelX (labelY + 6)]
            else [FillText (ability_name a) labelX labelY])
         @ (if isHighlighted then [FillPercent (ability_value a) labelX (labelY + 18)] else []))"

definition drawAxes :: "real \<Rightarrow> real \<Rightarrow> real \<Rightarrow> int \<Rightarrow> ability list \<Rightarrow> draw list" where
  "drawAxes centerX centerY radius hovered abilities =
     concat (map (draw_axis centerX centerY radius hovered (length abilities))
                 (enumerate 0 abilities))"

fun spokes :: "draw list \<Rightarrow> (real \<times> real \<times> real \<times> real) list" where
  "spokes [] = []"
| "spokes (Line a b c d # ds) = (a, b, c, d) # spokes ds"
| "spokes (_ # ds) = spokes ds"

subsection \<open>Entry animation\<close>

text \<open>
  \<^verbatim>\<open>
  function startAnimation() {
      if (isAnimating || !config.animation?.enableEntryAnimation) return;
      isAnimating = true;
      animationProgress = 0;
      const duration = config.animation?.updateDuration || 2000;
      const animationSpeed = 1 / (duration * 60 / 1000);
      let lastTime = performance.now();
      function animate(currentTime) {
          const deltaTime = currentTime - lastTime;
          if (deltaTime < 16.67) { requestAnimationFrame(animate); return; }
          lastTime = currentTime;
          animationProgress += animationSpeed * (deltaTime / 16.67);
          if (animationProgress >= 1) { animationProgress = 1; isAnimating = false; }
          const easeProgress = easeOutCubic(animationProgress);
          const tempProgress = animationProgress;
          animationProgress = easeProgress;
          drawRadarChart();
          animationProgress = tempProgress;
          if (isAnimating) { requestAnimationFrame(animate); }
      }
      requestAnimationFrame(animate);
  }
  \<close>
  \<open>drawn\<close> lists the values \<^verbatim>\<open>animationProgress\<close> had at each call of
  \<^verbatim>\<open>drawRadarChart\<close>. \<open>animate\<close> returns the new state and whether it has requested
  another frame. \<open>frames\<close> runs \<^verbatim>\<open>animate\<close> at the times the browser calls it back, as
  long as a frame has been requested, and returns the state after each call.
\<close>

record anim =
  animationProgress :: real
  isAnimating :: bool
  lastTime :: real
  drawn :: "real list"

definition easeOutCubic :: "real \<Rightarrow> real" where
  "easeOutCubic t = 1 - (1 - t) ^ 3"

definition animationSpeed :: "real option \<Rightarrow> real" where
  "animationSpeed updateDuration =
     (let duration = (case updateDuration of None \<Rightarrow> 2000 | Some d \<Rightarrow> if d = 0 then 2000 else d)
      in 1 / (duration * 60 / 1000))"

definition startAnimation :: "bool \<Rightarrow> real \<Rightarrow> anim \<Rightarrow> anim" where
  "startAnimation enableEntryAnimation now a =
     (if isAnimating a \<or> \<not> enableEntryAnimation then a
      else a\<lparr>animationProgress := 0, isAnimating := True, lastTime := now\<rparr>)"

definition animate :: "real \<Rightarrow> real \<Rightarrow> anim \<Rightarrow> anim \<times> bool" where
  "animate speed currentTime a =
     (let deltaTime = currentTime - lastTime a in
      if deltaTime < 16.67 then (a, True)
      else
        (let progress = animationProgress a + speed * (deltaTime / 16.67);
             finished = (progress \<ge> 1);
             progress' = (if finished then 1 else progress);
             animating = (if finished then False else isAnimating a)
         in (a\<lparr>animationProgress := progress',
                isAnimating := animating,
                lastTime := currentTime,
                drawn := drawn a @ [easeOutCubic progress']\<rparr>,
             animating)))"

fun frames :: "real \<Rightarrow> real list \<Rightarrow> anim \<Rightarrow> anim list" where
  "frames speed [] a = []"
| "frames speed (t # ts) a =
     (case animate speed t a of
        (a', requested) \<Rightarrow> a' # (if requested then frames speed ts a' else []))"

subsection \<open>Hover detection\<close>

text \<open>
  \<^verbatim>\<open>
  function detectHover(mousePos) {
      const centerX = canvas.width / (window.devicePixelRatio || 1) / 2;
      const centerY = canvas.height / (window.devicePixelRatio || 1) / 2;
      const radius = Math.min(centerX, centerY) - 60;
      let newHoveredIndex = -1;
      abilities.forEach((ability, index) => {
          const angle = (index * 2 * Math.PI) / abilities.length - Math.PI / 2;
          const value = (ability.value / 100) * radius;
          const x = centerX + Math.cos(angle) * value;
          const y = centerY + Math.sin(angle) * value;
          const distance = Math.sqrt(Math.pow(mousePos.x - x, 2) + Math.pow(mousePos.y - y, 2));
          if (distance <= 15) { newHoveredIndex = index; }
      });
      if (newHoveredIndex !== hoveredIndex) {
          hoveredIndex = newHoveredIndex;
          drawRadarChart();
          updateTooltip(mousePos, newHoveredIndex);
      }
  }
  \<close>
  The centre is given by the canvas and is an argument of the model. \<open>data_vertex\<close>
  with progress \<open>1\<close> is the vertex the hit test measures from; \<^verbatim>\<open>drawData\<close> and
  \<^verbatim>\<open>drawDataPoints\<close> draw it scaled by \<^verbatim>\<open>animationProgress\<close>. \<open>redraws\<close> counts the
  calls of \<^verbatim>\<open>drawRadarChart\<close>, \<open>tooltip\<close> is the ability whose tooltip is shown.
\<close>

definition data_vertex :: "real \<Rightarrow> real \<Rightarrow> real \<Rightarrow> real \<Rightarrow> nat \<Rightarrow> nat \<times> ability \<Rightarrow> real \<times> real" where
  "data_vertex centerX centerY radius progress n e =
     (let angle = axis_angle n (fst e);
          v = (ability_value (snd e) / 100) * radius * progress
      in (centerX + cos angle * v, centerY + sin angle * v))"

definition vertices :: "real \<Rightarrow> real \<Rightarrow> real \<Rightarrow> ability list \<Rightarrow> (real \<times> real) list" where
  "vertices centerX centerY radius abilities =
     map (data_vertex centerX centerY radius 1 (length abilities)) (enumerate 0 abilities)"

definition distance :: "real \<times> real \<Rightarrow> real \<times> real \<Rightarrow> real" where
  "distance mousePos v = sqrt ((fst mousePos - fst v) ^ 2 + (snd mousePos - snd v) ^ 2)"

fun hover_loop :: "real \<times> real \<Rightarrow> (real \<times> real) list \<Rightarrow> nat \<Rightarrow> int \<Rightarrow> int" where
  "hover_loop mousePos [] index newHoveredIndex = newHoveredIndex"
| "hover_loop mousePos (v # vs) index newHoveredIndex =
     hover_loop mousePos vs (Suc index)
       (if distance mousePos v \<le> 15 then int index else newHoveredIndex)"

record chart =
  hoveredIndex :: int
  redraws :: nat
  tooltip :: "nat option"

definition detectHover ::
  "real \<Rightarrow> real \<Rightarrow> ability list \<Rightarrow> real \<times> real \<Rightarrow> chart \<Rightarrow> chart" where
  "detectHover centerX centerY abilities mousePos ch =
     (let radius = min centerX centerY - 60;
          newHoveredIndex = hover_loop mousePos (vertices centerX centerY radius abilities) 0 (- 1)
      in if newHoveredIndex \<noteq> hoveredIndex ch
         then ch\<lparr>hoveredIndex := newHoveredIndex,
                 redraws := Suc (redraws ch),
                 tooltip := (if newHoveredIndex \<ge> 0 then Some (nat newHoveredIndex) else None)\<rparr>
         else ch)"

section \<open>Properties of the merge\<close>

lemma merge_test_iff:
  "(truthy v \<and> typeof_object v \<and> \<not> isArray v) = (\<exists>fs. v = JObj fs)"
  by (cases v) simp_all

lemma get_put_same: "get (put k v fs) k = Some v"
  by (induction fs) (auto simp: get_def)

lemma get_put_other: "k' \<noteq> k \<Longrightarrow> get (put k v fs) k' = get fs k'"
  by (induction fs) (auto simp: get_def)

lemma put_same: "get fs k = Some v \<Longrightarrow> put k v fs = fs"
  by (induction fs) (auto simp: get_def)


lemma get_None_iff: "get fs k = None \<longleftrightarrow> k \<notin> fst ` set fs"
  by (simp add: get_def map_of_eq_None_iff)

lemma merge_step_outside:
  "leaves_model ob key v \<Longrightarrow> merge ob ((key, v) # src) = Inl NotJson"
  by simp

lemma merge_step_plain:
  "\<not> leaves_model ob key v \<Longrightarrow> \<forall>fs. v \<noteq> JObj fs
     \<Longrightarrow> merge ob ((key, v) # src) = merge (put key v ob) src"
  by (cases v) simp_all

lemma merge_step_object:
  "\<not> leaves_model ob key (JObj fs) \<Longrightarrow> or_empty (get ob key) = JObj sub \<Longrightarrow>
   merge ob ((key, JObj fs) # src) =
     (case merge sub fs of Inl e \<Rightarrow> Inl e | Inr sub' \<Rightarrow> merge (put key (JObj sub') ob) src)"
  by simp

lemma merge_step_array:
  "\<not> leaves_model ob key (JObj fs) \<Longrightarrow> or_empty (get ob key) = JArr xs props \<Longrightarrow>
   merge ob ((key, JObj fs) # src) =
     (case assign_named props fs of
        Inl e \<Rightarrow> Inl e
      | Inr props' \<Rightarrow> merge (put key (JArr xs props') ob) src)"
  by simp

lemma merge_step_other:
  "\<not> leaves_model ob key (JObj fs) \<Longrightarrow> \<forall>sub. or_empty (get ob key) \<noteq> JObj sub
   \<Longrightarrow> \<forall>xs props. or_empty (get ob key) \<noteq> JArr xs props \<Longrightarrow>
   merge ob ((key, JObj fs) # src) =
     (if fs = [] then merge ob src
      else Inl (if fst (hd fs) = ''__proto__'' then NotJson else TypeError))"
  by (cases "or_empty (get ob key)") simp_all

lemma leaves_model_held: "get ob key = Some c \<Longrightarrow> \<not> leaves_model ob key v"
  by (simp add: leaves_model_def)


declare merge.simps(2) [simp del]

lemma or_empty_other:
  "\<forall>sub. or_empty g \<noteq> JObj sub \<Longrightarrow> \<exists>c. g = Some c \<and> truthy c \<and> or_empty g = c"
  by (auto simp: or_empty_def split: option.splits if_splits)

lemma or_empty_Some_object: "or_empty (Some (JObj sub)) = JObj sub"
  by (simp add: or_empty_def)

lemma or_empty_truthy: "truthy c \<Longrightarrow> or_empty (Some c) = c"
  by (simp add: or_empty_def)


text \<open>An induction rule that follows the ways a step of the loop can go.\<close>

lemma merge_cases_induct [case_names Nil Outside Plain Object Array Other]:
  assumes nil: "\<And>ob. P ob []"
    and outside: "\<And>ob key v src. leaves_model ob key v \<Longrightarrow> P ob ((key, v) # src)"
    and plain: "\<And>ob key v src. \<not> leaves_model ob key v \<Longrightarrow> \<forall>fs. v \<noteq> JObj fs
                  \<Longrightarrow> P (put key v ob) src \<Longrightarrow> P ob ((key, v) # src)"
    and object: "\<And>ob key fs src sub. \<not> leaves_model ob key (JObj fs)
                  \<Longrightarrow> or_empty (get ob key) = JObj sub \<Longrightarrow> P sub fs
                  \<Longrightarrow> (\<And>sub'. merge sub fs = Inr sub' \<Longrightarrow> P (put key (JObj sub') ob) src)
                  \<Longrightarrow> P ob ((key, JObj fs) # src)"
    and array: "\<And>ob key fs src xs props. \<not> leaves_model ob key (JObj fs)
                  \<Longrightarrow> or_empty (get ob key) = JArr xs props
                  \<Longrightarrow> (\<And>props'. assign_named props fs = Inr props'
                         \<Longrightarrow> P (put key (JArr xs props') ob) src)
                  \<Longrightarrow> P ob ((key, JObj fs) # src)"
    and other: "\<And>ob key fs src. \<not> leaves_model ob key (JObj fs)
                  \<Longrightarrow> \<forall>sub. or_empty (get ob key) \<noteq> JObj sub
                  \<Longrightarrow> \<forall>xs props. or_empty (get ob key) \<noteq> JArr xs props
                  \<Longrightarrow> (fs = [] \<Longrightarrow> P ob src) \<Longrightarrow> P ob ((key, JObj fs) # src)"
  shows "P ob src"
proof (induction ob src rule: merge.induct)
  case (1 ob)
  show ?case by (rule nil)
next
  case (2 ob key v src)
  show ?case
  proof (cases "leaves_model ob key v")
    case True
    then show ?thesis by (rule outside)
  next
    case False
    note inside = this
    show ?thesis
    proof (cases v)
      case JUndefined
      then have "\<forall>fs. v \<noteq> JObj fs" by simp
      with inside show ?thesis using "2.IH"(1) [OF inside JUndefined] by (rule plain)
    next
      case JNull
      then have "\<forall>fs. v \<noteq> JObj fs" by simp
      with inside show ?thesis using "2.IH"(2) [OF inside JNull] by (rule plain)
    next
      case (JBool b)
      then have "\<forall>fs. v \<noteq> JObj fs" by simp
      with inside show ?thesis using "2.IH"(3) [OF inside JBool] by (rule plain)
    next
      case (JNum x)
      then have "\<forall>fs. v \<noteq> JObj fs" by simp
      with inside show ?thesis using "2.IH"(4) [OF inside JNum] by (rule plain)
    next
      case (JNonFinite n)
      then have "\<forall>fs. v \<noteq> JObj fs" by simp
      with inside show ?thesis using "2.IH"(5) [OF inside JNonFinite] by (rule plain)
    next
      case (JStr u)
      then have "\<forall>fs. v \<noteq> JObj fs" by simp
      with inside show ?thesis using "2.IH"(6) [OF inside JStr] by (rule plain)
    next
      case (JArr xs props)
      then have "\<forall>fs. v \<noteq> JObj fs" by simp
      with inside show ?thesis using "2.IH"(7) [OF inside JArr] by (rule plain)
    next
      case (JObj fs)
      note v = this
      from inside have ins: "\<not> leaves_model ob key (JObj fs)" by (simp add: v)
      show ?thesis
      proof (cases "or_empty (get ob key)")
        case JUndefined
        then have "\<forall>sub. or_empty (get ob key) \<noteq> JObj sub"
          and "\<forall>xs props. or_empty (get ob key) \<noteq> JArr xs props" by simp_all
        with ins show ?thesis unfolding v using "2.IH"(8) [OF inside v JUndefined] by (rule other)
      next
        case JNull
        then have "\<forall>sub. or_empty (get ob key) \<noteq> JObj sub"
          and "\<forall>xs props. or_empty (get ob key) \<noteq> JArr xs props" by simp_all
        with ins show ?thesis unfolding v using "2.IH"(9) [OF inside v JNull] by (rule other)
      next
        case (JBool b)
        then have "\<forall>sub. or_empty (get ob key) \<noteq> JObj sub"
          and "\<forall>xs props. or_empty (get ob key) \<noteq> JArr xs props" by simp_all
        with ins show ?thesis unfolding v using "2.IH"(10) [OF inside v JBool] by (rule other)
      next
        case (JNum x)
        then have "\<forall>sub. or_empty (get ob key) \<noteq> JObj sub"
          and "\<forall>xs props. or_empty (get ob key) \<noteq> JArr xs props" by simp_all
        with ins show ?thesis unfolding v using "2.IH"(11) [OF inside v JNum] by (rule other)
      next
        case (JNonFinite n)
        then have "\<forall>sub. or_empty (get ob key) \<noteq> JObj sub"
          and "\<forall>xs props. or_empty (get ob key) \<noteq> JArr xs props" by simp_all
        with ins show ?thesis unfolding v using "2.IH"(12) [OF inside v JNonFinite] by (rule other)
      next
        case (JStr u)
        then have "\<forall>sub. or_empty (get ob key) \<noteq> JObj sub"
          and "\<forall>xs props. or_empty (get ob key) \<noteq> JArr xs props" by simp_all
        with ins show ?thesis unfolding v using "2.IH"(13) [OF inside v JStr] by (rule other)
      next
        case (JArr xs props)
        show ?thesis unfolding v
          using ins JArr "2.IH"(14) [OF inside v JArr] by (rule array)
      next
        case (JObj sub)
        show ?thesis unfolding v
          using ins JObj "2.IH"(15) [OF inside v JObj] "2.IH"(16) [OF inside v JObj]
          by (rule object)
      qed
    qed
  qed
qed








section \<open>The loop in a page with an untouched Object.prototype\<close>

text \<open>
  With nothing added to \<^verbatim>\<open>Object.prototype\<close>, and where \<open>merge\<close> does not stop,
  \<open>merge_chain\<close> ends as \<open>merge\<close> does and adds nothing to \<^verbatim>\<open>Object.prototype\<close>.
\<close>

lemma inherited_keys_clean [simp]: "inherited_keys [] src = []"
  by (simp add: inherited_keys_def)

lemma enumerated_clean [simp]: "enumerated [] src = map fst src"
  by (simp add: enumerated_def)

lemma merge_target_clean:
  "merge_target [] ob key =
     (if get ob key = None \<and> inherited key then None else Some (or_empty (get ob key)))"
  by (simp add: merge_target_def or_empty_def get_def split: option.splits)

lemma merge_chain_clean:
  "merge ob src \<noteq> Inl NotJson \<Longrightarrow> merge_chain [] ob src = (merge ob src, [])"
proof (induction ob src rule: merge_cases_induct)
  case (Nil ob)
  show ?case by simp
next
  case (Outside ob key v src)
  then show ?case by (simp add: merge_step_outside)
next
  case (Plain ob key v src)
  have step: "merge ob ((key, v) # src) = merge (put key v ob) src"
    by (rule merge_step_plain [OF Plain.hyps])
  with Plain.prems have "merge (put key v ob) src \<noteq> Inl NotJson" by simp
  from Plain.IH [OF this]
  have ih: "merge_chain [] (put key v ob) src = (merge (put key v ob) src, [])" .
  from Plain.hyps have "\<not> (key = ''__proto__'' \<and> get ob key = None)"
    by (cases v) (auto simp: leaves_model_def)
  with Plain.hyps(2)
  have "merge_chain [] ob ((key, v) # src) = merge_chain [] (put key v ob) src"
    by (cases v) auto
  then show ?case by (simp only: step ih)
next
  case (Object ob key fs src sub)
  from Object.hyps have tgt: "merge_target [] ob key = Some (JObj sub)"
    by (auto simp: merge_target_clean leaves_model_def)
  show ?case
  proof (cases "merge sub fs")
    case (Inl e)
    with Object.prems have "e \<noteq> NotJson"
      by (auto simp: merge_step_object [OF Object.hyps])
    with Inl Object.IH(1) have "merge_chain [] sub fs = (Inl e, [])" by simp
    with Inl show ?thesis by (simp add: tgt merge_step_object [OF Object.hyps])
  next
    case (Inr sub')
    with Object.IH(1) have c1: "merge_chain [] sub fs = (Inr sub', [])" by simp
    from Inr Object.prems have "merge (put key (JObj sub') ob) src \<noteq> Inl NotJson"
      by (simp add: merge_step_object [OF Object.hyps])
    from Object.IH(2) [OF Inr this] c1 Inr show ?thesis
      by (simp add: tgt merge_step_object [OF Object.hyps])
  qed
next
  case (Array ob key fs src xs props)
  from Array.hyps have tgt: "merge_target [] ob key = Some (JArr xs props)"
    by (auto simp: merge_target_clean leaves_model_def)
  note step = merge_step_array [OF Array.hyps]
  show ?case
  proof (cases "assign_named props fs")
    case (Inl e)
    then show ?thesis by (simp add: tgt step)
  next
    case (Inr props')
    with Array.prems have "merge (put key (JArr xs props') ob) src \<noteq> Inl NotJson"
      by (simp add: step)
    from Array.IH [OF Inr this] Inr show ?thesis by (simp add: tgt step)
  qed
next
  case (Other ob key fs src)
  from or_empty_other [OF Other.hyps(2)] obtain c where
    g: "get ob key = Some c" and tc: "truthy c" and oc: "or_empty (get ob key) = c" by blast
  from Other.hyps(2,3) oc have nobj: "\<forall>sub. c \<noteq> JObj sub" and narr: "\<forall>xs props. c \<noteq> JArr xs props"
    by simp_all
  have tgt: "merge_target [] ob key = Some c" using oc by (simp add: merge_target_clean g)
  note step = merge_step_other [OF Other.hyps]
  show ?case
  proof (cases "fs = []")
    case True
    from Other.prems [unfolded step] True have "merge ob src \<noteq> Inl NotJson" by simp
    from Other.IH [OF True this]
    have ih: "merge_chain [] ob src = (merge ob src, [])" .
    from True nobj narr
    have "merge_chain [] ob ((key, JObj fs) # src) = merge_chain [] (put key c ob) src"
      by (cases c) (simp_all add: tgt)
    then have c: "merge_chain [] ob ((key, JObj fs) # src) = merge_chain [] ob src"
      by (simp only: put_same [OF g])
    have m: "merge ob ((key, JObj fs) # src) = merge ob src"
      unfolding step using True by simp
    show ?thesis by (simp only: c m ih)
  next
    case False
    then have "hd (map fst fs) = fst (hd fs)" by (simp add: hd_map)
    with False nobj narr
    have "merge_chain [] ob ((key, JObj fs) # src)
            = (Inl (if fst (hd fs) = ''__proto__'' then NotJson else TypeError), [])"
      by (cases c) (simp_all add: tgt)
    moreover from False
    have "merge ob ((key, JObj fs) # src)
            = Inl (if fst (hd fs) = ''__proto__'' then NotJson else TypeError)"
      unfolding step by simp
    ultimately show ?thesis by simp
  qed
qed

lemma mergeConfig_chain_clean:
  "mergeConfig target source \<noteq> Inl NotJson
     \<Longrightarrow> mergeConfig_chain [] target source = (mergeConfig target source, [])"
proof -
  let ?t = "copy_fields target" and ?src = "for_in source"
  assume "mergeConfig target source \<noteq> Inl NotJson"
  then have c: "merge_chain [] ?t ?src = (merge ?t ?src, [])"
    unfolding mergeConfig_def by (rule merge_chain_clean)
  have rounds: "(case merge_chain [] ?t ?src of
             (Inl e, prototype') \<Rightarrow> (Inl e, prototype')
           | (Inr r, prototype') \<Rightarrow>
               (case copy_inherited prototype' (inherited_keys [] ?src) r of
                  Inl e \<Rightarrow> (Inl e, prototype')
                | Inr r' \<Rightarrow> (Inr r', prototype'))) = (merge ?t ?src, [])"
    unfolding c by (cases "merge ?t ?src") simp_all
  show ?thesis
  proof (cases "source = JNull \<or> source = JUndefined")
    case True
    then show ?thesis by (auto simp: mergeConfig_chain_def mergeConfig_def)
  next
    case False
    then have "mergeConfig_chain [] target source =
          (case merge_chain [] ?t ?src of
             (Inl e, prototype') \<Rightarrow> (Inl e, prototype')
           | (Inr r, prototype') \<Rightarrow>
               (case copy_inherited prototype' (inherited_keys [] ?src) r of
                  Inl e \<Rightarrow> (Inl e, prototype')
                | Inr r' \<Rightarrow> (Inr r', prototype')))"
      by (simp add: mergeConfig_chain_def split: json.split del: for_in.simps)
    then show ?thesis by (simp only: rounds mergeConfig_def)
  qed
qed

lemma put_new: "get fs k = None \<Longrightarrow> put k v fs = fs @ [(k, v)]"
  by (induction fs) (auto simp: get_def split: if_splits)

section \<open>Properties of the manager\<close>

lemma act_fields [simp]:
  "config (act a m) = config m" "storage (act a m) = storage m"
  "accepts (act a m) = accepts m" "behaviour (act a m) = behaviour m"
  "calls (act a m) = calls m" "console (act a m) = console m"
  by (cases a; simp add: addListener_def removeListener_def)+

lemma fold_act_fields [simp]:
  "config (fold act as m) = config m" "storage (fold act as m) = storage m"
  "accepts (fold act as m) = accepts m" "behaviour (fold act as m) = behaviour m"
  "calls (fold act as m) = calls m" "console (fold act as m) = console m"
  by (induction as arbitrary: m; simp)+

lemma call_listener_fields [simp]:
  "config (call_listener l event data m) = config m"
  "storage (call_listener l event data m) = storage m"
  "accepts (call_listener l event data m) = accepts m"
  "behaviour (call_listener l event data m) = behaviour m"
  by (simp_all add: call_listener_def Let_def)


lemma call_listener_quiet:
  "fst (behaviour m l event data) = [] \<Longrightarrow>
   call_listener l event data m =
     m\<lparr>calls := calls m @ [(l, event, data)],
       console := console m @ (if snd (behaviour m l event data) then [ListenerFailed l] else [])\<rparr>"
  by (simp add: call_listener_def Let_def)

lemma for_each_fields [simp]:
  "config (for_each k n event data m) = config m"
  "storage (for_each k n event data m) = storage m"
  "accepts (for_each k n event data m) = accepts m"
  "behaviour (for_each k n event data m) = behaviour m"
  by (induction n arbitrary: k m; simp)+


text \<open>
  With listeners that leave the registry alone, \<^verbatim>\<open>forEach\<close> calls the listeners from
  index \<open>k\<close> on, in their order, and logs those that throw.
\<close>

lemma for_each_quiet:
  "quiet m \<Longrightarrow> k + n = length (listeners m) \<Longrightarrow>
   for_each k n event data m =
     m\<lparr>calls := calls m @ map (\<lambda>l. (l, event, data)) (drop k (listeners m)),
       console := console m @ map ListenerFailed
                    (filter (\<lambda>l. snd (behaviour m l event data)) (drop k (listeners m)))\<rparr>"
proof (induction n arbitrary: k m)
  case 0
  then show ?case by simp
next
  case (Suc n)
  let ?l = "listeners m ! k"
  from Suc.prems(2) have k: "k < length (listeners m)" by simp
  then have mem: "?l \<in> set (listeners m)" by simp
  with Suc.prems(1) have q: "fst (behaviour m ?l event data) = []"
    by (simp add: quiet_def list_all_iff)
  let ?m = "call_listener ?l event data m"
  note c = call_listener_quiet [OF q]
  have ls: "listeners ?m = listeners m" and bh: "behaviour ?m = behaviour m"
    by (simp_all add: c)
  from Suc.prems(1) have q': "quiet ?m" by (simp add: quiet_def ls bh)
  from Suc.prems(2) have len: "Suc k + n = length (listeners ?m)" by (simp add: ls)
  have d: "drop k (listeners m) = ?l # drop (Suc k) (listeners m)"
    using k by (simp add: Cons_nth_drop_Suc)
  have "for_each k (Suc n) event data m = for_each (Suc k) n event data ?m"
    using k by simp
  also note Suc.IH [OF q' len]
  finally show ?case
    unfolding ls bh d by (simp add: c)
qed

lemma config_notifyListeners [simp]: "config (notifyListeners event data m) = config m"
  by (simp add: notifyListeners_def)

lemma storage_notifyListeners [simp]: "storage (notifyListeners event data m) = storage m"
  by (simp add: notifyListeners_def)

lemma accepts_notifyListeners [simp]: "accepts (notifyListeners event data m) = accepts m"
  by (simp add: notifyListeners_def)

lemma behaviour_notifyListeners [simp]: "behaviour (notifyListeners event data m) = behaviour m"
  by (simp add: notifyListeners_def)


lemma notifyListeners_quiet:
  "quiet m \<Longrightarrow>
   notifyListeners event data m =
     m\<lparr>calls := calls m @ map (\<lambda>l. (l, event, data)) (listeners m),
       console := console m @ map ListenerFailed
                    (filter (\<lambda>l. snd (behaviour m l event data)) (listeners m))\<rparr>"
  unfolding notifyListeners_def by (subst for_each_quiet) simp_all

lemma quiet_update [simp]:
  "quiet (m\<lparr>config := c\<rparr>) = quiet m" "quiet (m\<lparr>storage := s\<rparr>) = quiet m"
  "quiet (m\<lparr>calls := cs\<rparr>) = quiet m" "quiet (m\<lparr>console := l\<rparr>) = quiet m"
  by (simp_all add: quiet_def)

lemma config_saveConfig [simp]: "config (saveConfig m) = config m"
  by (simp add: saveConfig_def)

lemma accepts_saveConfig [simp]: "accepts (saveConfig m) = accepts m"
  by (simp add: saveConfig_def)

lemma behaviour_saveConfig [simp]: "behaviour (saveConfig m) = behaviour m"
  by (simp add: saveConfig_def)

lemma storage_saveConfig:
  "storage (saveConfig m) =
     (if accepts m ''abilityChartConfig'' (JObj (copy_fields (config m)))
      then (storage m)(''abilityChartConfig'' \<mapsto> JObj (copy_fields (config m)))
      else storage m)"
  by (simp add: saveConfig_def)


lemma saveConfig_quiet:
  "quiet m \<Longrightarrow>
   listeners (saveConfig m) = listeners m
   \<and> quiet (saveConfig m)
   \<and> calls (saveConfig m) =
       calls m @ (if accepts m ''abilityChartConfig'' (JObj (copy_fields (config m)))
                  then map (\<lambda>l. (l, ''configSaved'', JObj (config m))) (listeners m)
                  else [])"
  by (simp add: saveConfig_def notifyListeners_quiet quiet_def)


lemma updateConfig_Inl:
  "updateConfig p m = Inl e \<longleftrightarrow> mergeConfig (config m) p = Inl e"
  by (auto simp: updateConfig_def Let_def split: sum.splits)

lemma updateConfig_returns:
  "mergeConfig (config m) p = Inr c \<Longrightarrow> \<exists>m'. updateConfig p m = Inr m' \<and> config m' = c"
  by (simp add: updateConfig_def Let_def)

section \<open>Effects of the operations\<close>

lemma copy_DEFAULT_CHART_CONFIG: "copy_fields DEFAULT_CHART_CONFIG = DEFAULT_CHART_CONFIG"
  by (simp add: DEFAULT_CHART_CONFIG_def)

lemma updateConfig_result:
  "updateConfig p m = Inr m' \<Longrightarrow>
     m' = notifyListeners ''configUpdated'' (JObj (config m'))
            (saveConfig (m\<lparr>config := config m'\<rparr>))"
  by (auto simp: updateConfig_def Let_def split: sum.splits)

lemma updateConfig_effect:
  assumes "updateConfig p m = Inr m'"
  shows "accepts m' = accepts m"
    and "behaviour m' = behaviour m"
    and "storage m' =
           (if accepts m ''abilityChartConfig'' (JObj (copy_fields (config m')))
            then (storage m)(''abilityChartConfig'' \<mapsto> JObj (copy_fields (config m')))
            else storage m)"
    and "quiet m \<Longrightarrow> listeners m' = listeners m"
    and "quiet m \<Longrightarrow> calls m' =
           calls m
           @ (if accepts m ''abilityChartConfig'' (JObj (copy_fields (config m')))
              then map (\<lambda>l. (l, ''configSaved'', JObj (config m'))) (listeners m)
              else [])
           @ map (\<lambda>l. (l, ''configUpdated'', JObj (config m'))) (listeners m)"
proof -
  note r = updateConfig_result [OF assms]
  let ?s = "saveConfig (m\<lparr>config := config m'\<rparr>)"
  show "accepts m' = accepts m" by (subst r) simp
  show "behaviour m' = behaviour m" by (subst r) simp
  show "storage m' =
           (if accepts m ''abilityChartConfig'' (JObj (copy_fields (config m')))
            then (storage m)(''abilityChartConfig'' \<mapsto> JObj (copy_fields (config m')))
            else storage m)"
    by (subst r) (simp add: storage_saveConfig)
  assume q: "quiet m"
  then have "quiet (m\<lparr>config := config m'\<rparr>)" by simp
  from saveConfig_quiet [OF this]
  have ls: "listeners ?s = listeners m" and qs: "quiet ?s"
    and cs: "calls ?s =
       calls m @ (if accepts m ''abilityChartConfig'' (JObj (copy_fields (config m')))
                  then map (\<lambda>l. (l, ''configSaved'', JObj (config m'))) (listeners m)
                  else [])"
    by simp_all
  show "listeners m' = listeners m"
    by (subst r) (simp add: notifyListeners_quiet [OF qs] ls)
  show "calls m' =
           calls m
           @ (if accepts m ''abilityChartConfig'' (JObj (copy_fields (config m')))
              then map (\<lambda>l. (l, ''configSaved'', JObj (config m'))) (listeners m)
              else [])
           @ map (\<lambda>l. (l, ''configUpdated'', JObj (config m'))) (listeners m)"
    by (subst r) (simp add: notifyListeners_quiet [OF qs] ls cs)
qed

lemma resetConfig_effect:
  shows "config (resetConfig m) = DEFAULT_CHART_CONFIG"
    and "accepts (resetConfig m) = accepts m"
    and "behaviour (resetConfig m) = behaviour m"
    and "storage (resetConfig m) =
           (if accepts m ''abilityChartConfig'' (JObj DEFAULT_CHART_CONFIG)
            then (storage m)(''abilityChartConfig'' \<mapsto> JObj DEFAULT_CHART_CONFIG)
            else storage m)"
  by (simp_all add: resetConfig_def Let_def storage_saveConfig copy_DEFAULT_CHART_CONFIG)

lemma resetConfig_unfold:
  "resetConfig m =
     notifyListeners ''configReset'' (JObj DEFAULT_CHART_CONFIG)
       (saveConfig (m\<lparr>config := DEFAULT_CHART_CONFIG\<rparr>))"
  by (simp add: resetConfig_def Let_def copy_DEFAULT_CHART_CONFIG)

lemma resetConfig_quiet:
  assumes "quiet m"
  shows "listeners (resetConfig m) = listeners m"
    and "calls (resetConfig m) =
           calls m
           @ (if accepts m ''abilityChartConfig'' (JObj DEFAULT_CHART_CONFIG)
              then map (\<lambda>l. (l, ''configSaved'', JObj DEFAULT_CHART_CONFIG)) (listeners m)
              else [])
           @ map (\<lambda>l. (l, ''configReset'', JObj DEFAULT_CHART_CONFIG)) (listeners m)"
proof -
  let ?s = "saveConfig (m\<lparr>config := DEFAULT_CHART_CONFIG\<rparr>)"
  from assms have "quiet (m\<lparr>config := DEFAULT_CHART_CONFIG\<rparr>)" by simp
  from saveConfig_quiet [OF this]
  have ls: "listeners ?s = listeners m" and qs: "quiet ?s"
    and cs: "calls ?s =
       calls m @ (if accepts m ''abilityChartConfig'' (JObj DEFAULT_CHART_CONFIG)
                  then map (\<lambda>l. (l, ''configSaved'', JObj DEFAULT_CHART_CONFIG)) (listeners m)
                  else [])"
    by (simp_all add: copy_DEFAULT_CHART_CONFIG)
  show "listeners (resetConfig m) = listeners m"
    unfolding resetConfig_unfold by (simp add: notifyListeners_quiet [OF qs] ls)
  show "calls (resetConfig m) =
           calls m
           @ (if accepts m ''abilityChartConfig'' (JObj DEFAULT_CHART_CONFIG)
              then map (\<lambda>l. (l, ''configSaved'', JObj DEFAULT_CHART_CONFIG)) (listeners m)
              else [])
           @ map (\<lambda>l. (l, ''configReset'', JObj DEFAULT_CHART_CONFIG)) (listeners m)"
    unfolding resetConfig_unfold by (simp add: notifyListeners_quiet [OF qs] ls cs)
qed


lemma apply_overrides_result:
  assumes "apply_overrides themeName entries m = Inr m'"
  shows "merge (copy_fields (config m)) entries = Inr (config m')"
    and "m' = notifyListeners ''themeApplied''
                (JObj [(''theme'', JStr (ustr themeName)), (''config'', JObj (config m'))])
                (saveConfig (m\<lparr>config := config m'\<rparr>))"
  using assms by (auto simp: apply_overrides_def Let_def split: sum.splits)


lemma apply_overrides_effect:
  assumes "apply_overrides themeName entries m = Inr m'"
  shows "accepts m' = accepts m"
    and "behaviour m' = behaviour m"
    and "storage m' =
           (if accepts m ''abilityChartConfig'' (JObj (copy_fields (config m')))
            then (storage m)(''abilityChartConfig'' \<mapsto> JObj (copy_fields (config m')))
            else storage m)"
    and "quiet m \<Longrightarrow> listeners m' = listeners m"
    and "quiet m \<Longrightarrow> calls m' =
           calls m
           @ (if accepts m ''abilityChartConfig'' (JObj (copy_fields (config m')))
              then map (\<lambda>l. (l, ''configSaved'', JObj (config m'))) (listeners m)
              else [])
           @ map (\<lambda>l. (l, ''themeApplied'',
                        JObj [(''theme'', JStr (ustr themeName)), (''config'', JObj (config m'))]))
                 (listeners m)"
proof -
  note r = apply_overrides_result(2) [OF assms]
  let ?s = "saveConfig (m\<lparr>config := config m'\<rparr>)"
  show "accepts m' = accepts m" by (subst r) simp
  show "behaviour m' = behaviour m" by (subst r) simp
  show "storage m' =
           (if accepts m ''abilityChartConfig'' (JObj (copy_fields (config m')))
            then (storage m)(''abilityChartConfig'' \<mapsto> JObj (copy_fields (config m')))
            else storage m)"
    by (subst r) (simp add: storage_saveConfig)
  assume q: "quiet m"
  then have "quiet (m\<lparr>config := config m'\<rparr>)" by simp
  from saveConfig_quiet [OF this]
  have ls: "listeners ?s = listeners m" and qs: "quiet ?s"
    and cs: "calls ?s =
       calls m @ (if accepts m ''abilityChartConfig'' (JObj (copy_fields (config m')))
                  then map (\<lambda>l. (l, ''configSaved'', JObj (config m'))) (listeners m)
                  else [])"
    by simp_all
  show "listeners m' = listeners m"
    by (subst r) (simp add: notifyListeners_quiet [OF qs] ls)
  show "calls m' =
           calls m
           @ (if accepts m ''abilityChartConfig'' (JObj (copy_fields (config m')))
              then map (\<lambda>l. (l, ''configSaved'', JObj (config m'))) (listeners m)
              else [])
           @ map (\<lambda>l. (l, ''themeApplied'',
                        JObj [(''theme'', JStr (ustr themeName)), (''config'', JObj (config m'))]))
                 (listeners m)"
    by (subst r) (simp add: notifyListeners_quiet [OF qs] ls cs)
qed



lemma applyTheme_truthy:
  "get (config m) ''themes'' = Some (JObj ts) \<Longrightarrow> get ts themeName = Some theme
     \<Longrightarrow> truthy theme \<Longrightarrow> applyTheme themeName m = apply_overrides themeName (for_in theme) m"
  by (simp add: applyTheme_def)

text \<open>
  A name that \<^verbatim>\<open>config.themes\<close> inherits, such as \<open>toString\<close>, is taken for a theme
  without overrides: the JSON copy of the config is saved and announced.
\<close>

lemma applyTheme_inherited:
  "get (config m) ''themes'' = Some (JObj ts) \<Longrightarrow> get ts themeName = None
     \<Longrightarrow> inherited themeName \<Longrightarrow> applyTheme themeName m = apply_overrides themeName [] m"
  by (simp add: applyTheme_def)




section \<open>The claims about the configuration manager\<close>

text \<open>
  Where no registered listener changes the registry, \<^verbatim>\<open>notifyListeners\<close> calls every
  registered listener once, in the order of registration (\<^verbatim>\<open>addListener\<close> appends), with
  the event name and the data of the operation, whether or not listeners before it have
  thrown; each exception is caught and logged, one line per listener that threw, and
  nothing else changes.
\<close>

lemma notifyListeners_in_registration_order:
  assumes "quiet m"
  shows "calls (notifyListeners event data m) = calls m @ map (\<lambda>l. (l, event, data)) (listeners m)"
    and "console (notifyListeners event data m) =
           console m @ map ListenerFailed
                         (filter (\<lambda>l. snd (behaviour m l event data)) (listeners m))"
    and "listeners (notifyListeners event data m) = listeners m"
    and "listeners (addListener l m) = listeners m @ [l]"
  by (simp_all add: notifyListeners_quiet [OF assms] addListener_def)

text \<open>
  C5. The claim does not hold for every list of listeners. Register two listeners, the
  first of which unregisters itself when it is called. \<^verbatim>\<open>forEach\<close> calls it at index
  \<open>0\<close>; its \<^verbatim>\<open>removeListener\<close> splices the array that \<^verbatim>\<open>forEach\<close> is walking, so that the
  second listener moves to index \<open>0\<close>, and at index \<open>1\<close> the array has nothing: the second
  listener is registered and is not called.
\<close>

theorem notifyListeners_skips_after_unsubscribe:
  "listeners example_manager_once = [0, 1]
   \<and> calls (notifyListeners ''configUpdated'' (JObj example_config) example_manager_once)
       = [(0, ''configUpdated'', JObj example_config)]
   \<and> listeners (notifyListeners ''configUpdated'' (JObj example_config) example_manager_once)
       = [1]"
  by (simp add: notifyListeners_def call_listener_def Let_def removeListener_def
        example_manager_once_def example_manager_def numeral_2_eq_2)




lemma copy_example_config: "copy_fields example_config = example_config"
  by (simp add: example_config_def)

lemma quiet_example_manager: "quiet example_manager"
  by (simp add: quiet_def example_manager_def)




lemma merge_radar_levels:
  "merge c [(''radar'', JObj [(''levels'', JNum 3)])] =
     (case or_empty (get c ''radar'') of
        JObj sub \<Rightarrow> Inr (put ''radar'' (JObj (put ''levels'' (JNum 3) sub)) c)
      | JArr xs props \<Rightarrow> Inr (put ''radar'' (JArr xs (put ''levels'' (JNum 3) props)) c)
      | _ \<Rightarrow> Inl TypeError)"
  by (cases "or_empty (get c ''radar'')")
     (simp_all add: merge.simps leaves_model_def inherited_def Object_prototype_names_def
        is_index_def)

lemma or_empty_own_property: "or_empty g = JObj sub \<Longrightarrow> own_property g f = get sub f"
proof (cases g)
  case None
  assume "or_empty g = JObj sub"
  with None show ?thesis by (simp add: or_empty_def get_def)
next
  case (Some c)
  assume "or_empty g = JObj sub"
  with Some show ?thesis
    by (cases c) (auto simp: or_empty_def get_def split: if_splits)
qed

lemma or_empty_array: "or_empty g = JArr xs props \<Longrightarrow> g = Some (JArr xs props)"
  by (auto simp: or_empty_def split: option.splits if_splits)

text \<open>
  C3, amended. Let the starting config be its own JSON copy. Then
  \<^verbatim>\<open>updateConfig({radar: {levels: 3}})\<close> returns or throws, and afterwards every key
  that the partial does not mention reads as it did before: \<open>chart.width\<close>, the whole
  value under every top-level key other than \<open>radar\<close>, and every property of \<open>radar\<close>
  other than \<open>levels\<close>.
\<close>

theorem updateConfig_preserves_untouched_keys:
  assumes "json_clean (config m)"
  shows "\<exists>m'. run [UpdateConfig (JObj [(''radar'', JObj [(''levels'', JNum 3)])])] m = Some m'
           \<and> get_path (config m') [''chart'', ''width''] = get_path (config m) [''chart'', ''width'']
           \<and> (\<forall>k. k \<noteq> ''radar'' \<longrightarrow> get (config m') k = get (config m) k)
           \<and> (\<forall>f. f \<noteq> ''levels'' \<longrightarrow>
                  own_property (get (config m') ''radar'') f
                    = own_property (get (config m) ''radar'') f)"
proof -
  let ?p = "JObj [(''radar'', JObj [(''levels'', JNum 3)])]"
  let ?c = "config m"
  from assms have mc: "mergeConfig ?c ?p = merge ?c [(''radar'', JObj [(''levels'', JNum 3)])]"
    by (simp add: mergeConfig_def json_clean_def)
  have width: "get_path c' [''chart'', ''width''] = get_path ?c [''chart'', ''width'']"
    if "\<forall>k. k \<noteq> ''radar'' \<longrightarrow> get c' k = get ?c k" for c'
    using that by simp
  show ?thesis
  proof (cases "mergeConfig ?c ?p")
    case (Inl e)
    then have e: "e = TypeError"
      unfolding mc merge_radar_levels by (cases "or_empty (get ?c ''radar'')") simp_all
    with Inl have "run [UpdateConfig ?p] m = Some m"
      by (simp add: updateConfig_Inl [symmetric])
    then show ?thesis by simp
  next
    case (Inr r)
    from updateConfig_returns [OF Inr] obtain m' where
      u: "updateConfig ?p m = Inr m'" and c: "config m' = r" by blast
    then have r: "run [UpdateConfig ?p] m = Some m'" by simp
    have frame: "(\<forall>k. k \<noteq> ''radar'' \<longrightarrow> get r k = get ?c k)
           \<and> (\<forall>f. f \<noteq> ''levels'' \<longrightarrow>
                  own_property (get r ''radar'') f = own_property (get ?c ''radar'') f)"
    proof (cases "or_empty (get ?c ''radar'')")
      case (JObj sub)
      with Inr have "r = put ''radar'' (JObj (put ''levels'' (JNum 3) sub)) ?c"
        unfolding mc merge_radar_levels by simp
      with or_empty_own_property [OF JObj] show ?thesis
        by (simp add: get_put_same get_put_other)
    next
      case (JArr xs props)
      with Inr have "r = put ''radar'' (JArr xs (put ''levels'' (JNum 3) props)) ?c"
        unfolding mc merge_radar_levels by simp
      with or_empty_array [OF JArr] show ?thesis
        by (simp add: get_put_same get_put_other)
    qed (use Inr in \<open>simp_all add: mc merge_radar_levels\<close>)
    from frame width [of r] have "get_path r [''chart'', ''width''] = get_path ?c [''chart'', ''width'']"
      by blast
    with frame r c show ?thesis by blast
  qed
qed

theorem updateConfig_preserves_untouched_keys_witness:
  "json_clean (config example_manager)
   \<and> (\<exists>m'. run [UpdateConfig (JObj [(''radar'', JObj [(''levels'', JNum 3)])])] example_manager
              = Some m'
      \<and> get_path (config m') [''radar'', ''levels''] = Some (JNum 3)
      \<and> get_path (config m') [''chart'', ''width''] = Some (JNum 400)
      \<and> own_property (get (config m') ''radar'') ''maxValue'' = Some (JNum 100))"
proof -
  let ?p = "[(''radar'', JObj [(''levels'', JNum 3)])]"
  have cl: "json_clean (config example_manager)"
    by (simp add: json_clean_def example_manager_def copy_example_config)
  from updateConfig_preserves_untouched_keys [OF cl] obtain m' where
    r: "run [UpdateConfig (JObj ?p)] example_manager = Some m'"
    and w: "get_path (config m') [''chart'', ''width'']
              = get_path (config example_manager) [''chart'', ''width'']"
    and f: "\<forall>f. f \<noteq> ''levels'' \<longrightarrow>
                  own_property (get (config m') ''radar'') f
                    = own_property (get (config example_manager) ''radar'') f"
    by (elim exE conjE)
  have "run [UpdateConfig (JObj ?p)] example_manager
          = Some (the (run [UpdateConfig (JObj ?p)] example_manager))
        \<and> get_path (config (the (run [UpdateConfig (JObj ?p)] example_manager)))
            [''radar'', ''levels''] = Some (JNum 3)"
    by (simp add: updateConfig_def mergeConfig_def merge.simps leaves_model_def inherited_def
          Object_prototype_names_def or_empty_def get_def
          Let_def example_manager_def example_config_def)
  with r have g: "get_path (config m') [''radar'', ''levels''] = Some (JNum 3)" by simp
  from w have g1: "get_path (config m') [''chart'', ''width''] = Some (JNum 400)"
    by (simp add: example_manager_def example_config_def get_def)
  from f have "own_property (get (config m') ''radar'') ''maxValue''
                 = own_property (get (config example_manager) ''radar'') ''maxValue''"
    by simp
  then have g2: "own_property (get (config m') ''radar'') ''maxValue'' = Some (JNum 100)"
    by (simp add: example_manager_def example_config_def get_def)
  show ?thesis
    by (intro conjI exI [of _ m'] cl r g g1 g2)
qed

text \<open>
  The claim as the specification states it speaks of every starting config.
  \<^verbatim>\<open>mergeConfig\<close> starts from the JSON copy of the config, in which \<^verbatim>\<open>Infinity\<close> is
  \<^verbatim>\<open>null\<close>: with \<open>chart.width\<close> at \<^verbatim>\<open>Infinity\<close>, as the import of the text
  \<^verbatim>\<open>{"chart": {"width": 1e400}}\<close> leaves it, the call changes \<open>chart.width\<close> to \<^verbatim>\<open>null\<close>.
\<close>

theorem updateConfig_changes_infinity:
  "get_path (config (example_manager\<lparr>config := [(''chart'', JObj [(''width'', JNonFinite PosInfinity)])]\<rparr>))
      [''chart'', ''width''] = Some (JNonFinite PosInfinity)
   \<and> map_option (\<lambda>m'. get_path (config m') [''chart'', ''width''])
        (run [UpdateConfig (JObj [(''radar'', JObj [(''levels'', JNum 3)])])]
           (example_manager\<lparr>config := [(''chart'', JObj [(''width'', JNonFinite PosInfinity)])]\<rparr>))
       = Some (Some JNull)"
  by (simp add: updateConfig_def mergeConfig_def merge.simps leaves_model_def inherited_def
        Object_prototype_names_def or_empty_def get_def Let_def example_manager_def)

text \<open>
  C2. The claim does not hold for every partial. Take a page that holds the default
  config, and the partial that \<^verbatim>\<open>JSON.parse\<close> makes from the text
  \<^verbatim>\<open>{"__proto__": {"x": 1}}\<close>, which is what the import of a file with that text
  passes to \<^verbatim>\<open>updateConfig\<close>. The first call returns the config as it was and leaves
  \<open>x\<close> on \<^verbatim>\<open>Object.prototype\<close>. The second call, on that config, enumerates \<open>x\<close> among
  the names of the partial and returns the config with \<open>x\<close> as a property of its own:
  the config after two calls is not the config after one.
\<close>

theorem updateConfig_twice_through_prototype:
  "mergeConfig_chain [] DEFAULT_CHART_CONFIG (JObj [(''__proto__'', JObj [(''x'', JNum 1)])])
     = (Inr DEFAULT_CHART_CONFIG, [(''x'', JNum 1)])
   \<and> mergeConfig_chain [(''x'', JNum 1)] DEFAULT_CHART_CONFIG
         (JObj [(''__proto__'', JObj [(''x'', JNum 1)])])
     = (Inr (DEFAULT_CHART_CONFIG @ [(''x'', JNum 1)]), [(''x'', JNum 1)])
   \<and> get DEFAULT_CHART_CONFIG ''x'' = None
   \<and> get (DEFAULT_CHART_CONFIG @ [(''x'', JNum 1)]) ''x'' = Some (JNum 1)"
proof -
  let ?src = "[(''__proto__'', JObj [(''x'', JNum 1)])]"
  let ?P = "[(''x'', JNum 1)]"
  have d1: "get DEFAULT_CHART_CONFIG ''__proto__'' = None"
    and d2: "get DEFAULT_CHART_CONFIG ''x'' = None"
    by (simp_all add: DEFAULT_CHART_CONFIG_def get_def)
  have i: "inherited ''__proto__''" "\<not> inherited ''x''"
    by (simp_all add: inherited_def Object_prototype_names_def)
  have g: "get [] ''__proto__'' = None" "get ?P ''__proto__'' = None"
    "get ?src ''x'' = None" "get ?P ''x'' = Some (JNum 1)"
    by (simp_all add: get_def)
  have t1: "merge_target [] DEFAULT_CHART_CONFIG ''__proto__'' = None"
    and t2: "merge_target ?P DEFAULT_CHART_CONFIG ''__proto__'' = None"
    by (simp_all add: merge_target_def d1 g i)
  have k: "inherited_keys ?P ?src = [''x'']"
    by (simp add: inherited_keys_def g)
  have c1: "merge_chain [] DEFAULT_CHART_CONFIG ?src = (Inr DEFAULT_CHART_CONFIG, ?P)"
    by (simp add: t1 i g)
  have c2: "merge_chain ?P DEFAULT_CHART_CONFIG ?src = (Inr DEFAULT_CHART_CONFIG, ?P)"
    by (simp add: t2 i g)
  note cp = copy_DEFAULT_CHART_CONFIG
  have first: "mergeConfig_chain [] DEFAULT_CHART_CONFIG (JObj ?src) = (Inr DEFAULT_CHART_CONFIG, ?P)"
    unfolding mergeConfig_chain_def cp
    by (simp only: json.case for_in.simps c1 prod.case sum.case inherited_keys_clean
          copy_inherited.simps)
  have second: "mergeConfig_chain ?P DEFAULT_CHART_CONFIG (JObj ?src)
                  = (Inr (DEFAULT_CHART_CONFIG @ ?P), ?P)"
    unfolding mergeConfig_chain_def cp
    by (simp only: json.case for_in.simps c2 prod.case sum.case k copy_inherited.simps g
          option.case put_new [OF d2])
  have after: "get (DEFAULT_CHART_CONFIG @ ?P) ''x'' = Some (JNum 1)"
    using d2 by (simp add: get_def map_add_def [symmetric] map_add_Some_iff)
  show ?thesis by (intro conjI first second d2 after)
qed




text \<open>
  C10, amended. Let the write to local storage be accepted and let the listeners leave
  the registry alone. Then a call of \<^verbatim>\<open>updateConfig\<close> that returns, a call of
  \<^verbatim>\<open>resetConfig\<close>, and a call of \<^verbatim>\<open>applyTheme\<close> that finds a truthy theme and returns,
  each call every listener twice: all listeners first with \<open>configSaved\<close> and the new
  config (from \<^verbatim>\<open>saveConfig\<close>), then all listeners with the event of the operation.
  \<open>configUpdated\<close> and \<open>configReset\<close> carry the new config itself; \<open>themeApplied\<close> carries
  it as the field \<open>config\<close> of an object that also holds the theme name.
\<close>

theorem mutations_notify_twice:
  "(updateConfig p m = Inr ma
      \<and> accepts m ''abilityChartConfig'' (JObj (copy_fields (config ma))) \<and> quiet m
      \<longrightarrow> calls ma =
            calls m
            @ map (\<lambda>l. (l, ''configSaved'', JObj (config ma))) (listeners m)
            @ map (\<lambda>l. (l, ''configUpdated'', JObj (config ma))) (listeners m))
   \<and> (accepts m ''abilityChartConfig'' (JObj DEFAULT_CHART_CONFIG) \<and> quiet m
      \<longrightarrow> config (resetConfig m) = DEFAULT_CHART_CONFIG
          \<and> calls (resetConfig m) =
               calls m
               @ map (\<lambda>l. (l, ''configSaved'', JObj DEFAULT_CHART_CONFIG)) (listeners m)
               @ map (\<lambda>l. (l, ''configReset'', JObj DEFAULT_CHART_CONFIG)) (listeners m))
   \<and> (get (config m) ''themes'' = Some (JObj ts) \<and> get ts name = Some theme \<and> truthy theme
      \<and> applyTheme name m = Inr mb
      \<and> accepts m ''abilityChartConfig'' (JObj (copy_fields (config mb))) \<and> quiet m
      \<longrightarrow> calls mb =
            calls m
            @ map (\<lambda>l. (l, ''configSaved'', JObj (config mb))) (listeners m)
            @ map (\<lambda>l. (l, ''themeApplied'',
                         JObj [(''theme'', JStr (ustr name)), (''config'', JObj (config mb))]))
                  (listeners m))"
proof (intro conjI impI)
  assume "updateConfig p m = Inr ma
      \<and> accepts m ''abilityChartConfig'' (JObj (copy_fields (config ma))) \<and> quiet m"
  then have u: "updateConfig p m = Inr ma"
    and a: "accepts m ''abilityChartConfig'' (JObj (copy_fields (config ma)))"
    and q: "quiet m" by simp_all
  from updateConfig_effect(5) [OF u q] a
  show "calls ma =
            calls m
            @ map (\<lambda>l. (l, ''configSaved'', JObj (config ma))) (listeners m)
            @ map (\<lambda>l. (l, ''configUpdated'', JObj (config ma))) (listeners m)"
    by simp
next
  assume "accepts m ''abilityChartConfig'' (JObj DEFAULT_CHART_CONFIG) \<and> quiet m"
  then have a: "accepts m ''abilityChartConfig'' (JObj DEFAULT_CHART_CONFIG)"
    and q: "quiet m" by simp_all
  show "config (resetConfig m) = DEFAULT_CHART_CONFIG" by (rule resetConfig_effect(1))
  from resetConfig_quiet(2) [OF q] a
  show "calls (resetConfig m) =
               calls m
               @ map (\<lambda>l. (l, ''configSaved'', JObj DEFAULT_CHART_CONFIG)) (listeners m)
               @ map (\<lambda>l. (l, ''configReset'', JObj DEFAULT_CHART_CONFIG)) (listeners m)"
    by simp
next
  assume "get (config m) ''themes'' = Some (JObj ts) \<and> get ts name = Some theme \<and> truthy theme
      \<and> applyTheme name m = Inr mb
      \<and> accepts m ''abilityChartConfig'' (JObj (copy_fields (config mb))) \<and> quiet m"
  then have th: "get (config m) ''themes'' = Some (JObj ts)" and g: "get ts name = Some theme"
    and tr: "truthy theme" and u: "applyTheme name m = Inr mb"
    and a: "accepts m ''abilityChartConfig'' (JObj (copy_fields (config mb)))"
    and q: "quiet m" by simp_all
  from u have "apply_overrides name (for_in theme) m = Inr mb"
    by (simp add: applyTheme_truthy [OF th g tr])
  from apply_overrides_effect(5) [OF this q] a
  show "calls mb =
            calls m
            @ map (\<lambda>l. (l, ''configSaved'', JObj (config mb))) (listeners m)
            @ map (\<lambda>l. (l, ''themeApplied'',
                         JObj [(''theme'', JStr (ustr name)), (''config'', JObj (config mb))]))
                  (listeners m)"
    by simp
qed

theorem mutations_notify_twice_witness:
  "(\<exists>ma. updateConfig (JObj [(''radar'', JObj [(''levels'', JNum 3)])]) example_manager = Inr ma
        \<and> accepts example_manager ''abilityChartConfig'' (JObj (copy_fields (config ma)))
        \<and> quiet example_manager
        \<and> calls ma =
            [(0, ''configSaved'', JObj (config ma)), (1, ''configSaved'', JObj (config ma)),
             (0, ''configUpdated'', JObj (config ma)), (1, ''configUpdated'', JObj (config ma))])
   \<and> accepts example_manager ''abilityChartConfig'' (JObj DEFAULT_CHART_CONFIG)
   \<and> calls (resetConfig example_manager) =
        [(0, ''configSaved'', JObj DEFAULT_CHART_CONFIG), (1, ''configSaved'', JObj DEFAULT_CHART_CONFIG),
         (0, ''configReset'', JObj DEFAULT_CHART_CONFIG), (1, ''configReset'', JObj DEFAULT_CHART_CONFIG)]
   \<and> (\<exists>mb. get (config example_manager) ''themes''
            = Some (JObj [(''light'', JObj [(''chart'', JObj [(''backgroundColor'', JStr (ustr ''#ffffff''))])]),
                          (''plain'', JNull)])
        \<and> applyTheme ''light'' example_manager = Inr mb
        \<and> accepts example_manager ''abilityChartConfig'' (JObj (copy_fields (config mb)))
        \<and> calls mb =
            [(0, ''configSaved'', JObj (config mb)), (1, ''configSaved'', JObj (config mb)),
             (0, ''themeApplied'',
              JObj [(''theme'', JStr (ustr ''light'')), (''config'', JObj (config mb))]),
             (1, ''themeApplied'',
              JObj [(''theme'', JStr (ustr ''light'')), (''config'', JObj (config mb))])])"
proof -
  let ?p = "JObj [(''radar'', JObj [(''levels'', JNum 3)])]"
  let ?light = "JObj [(''chart'', JObj [(''backgroundColor'', JStr (ustr ''#ffffff''))])]"
  let ?ts = "[(''light'', ?light), (''plain'', JNull)]"
  note q = quiet_example_manager
  have acc: "accepts example_manager ''abilityChartConfig'' v" for v
    by (simp add: example_manager_def)
  have "\<exists>ma. updateConfig ?p example_manager = Inr ma"
    by (simp add: updateConfig_def mergeConfig_def merge.simps leaves_model_def inherited_def
          Object_prototype_names_def or_empty_def get_def
          Let_def example_manager_def example_config_def)
  then obtain ma where ua: "updateConfig ?p example_manager = Inr ma" ..
  have gp: "get (config example_manager) ''themes'' = Some (JObj ?ts)"
    by (simp add: example_manager_def example_config_def get_def)
  have gl: "get ?ts ''light'' = Some ?light" by (simp add: get_def)
  have "\<exists>mb. applyTheme ''light'' example_manager = Inr mb"
    by (simp add: applyTheme_def apply_overrides_def mergeConfig_def merge.simps leaves_model_def
          inherited_def Object_prototype_names_def or_empty_def get_def
          Let_def example_manager_def example_config_def)
  then obtain mb where ub: "applyTheme ''light'' example_manager = Inr mb" ..
  note t = mutations_notify_twice
    [where p = "?p" and m = example_manager and ma = ma and ts = "?ts"
       and name = "''light''" and theme = "?light" and mb = mb]
  have h1: "updateConfig ?p example_manager = Inr ma
            \<and> accepts example_manager ''abilityChartConfig'' (JObj (copy_fields (config ma)))
            \<and> quiet example_manager"
    by (intro conjI ua acc q)
  have h2: "accepts example_manager ''abilityChartConfig'' (JObj DEFAULT_CHART_CONFIG)
            \<and> quiet example_manager"
    by (intro conjI acc q)
  have h3: "get (config example_manager) ''themes'' = Some (JObj ?ts)
            \<and> get ?ts ''light'' = Some ?light
            \<and> truthy ?light \<and> applyTheme ''light'' example_manager = Inr mb
            \<and> accepts example_manager ''abilityChartConfig'' (JObj (copy_fields (config mb)))
            \<and> quiet example_manager"
    by (intro conjI gp gl ub acc q) simp
  note c1 = mp [OF conjunct1 [OF t] h1]
  note c2 = conjunct2 [OF mp [OF conjunct1 [OF conjunct2 [OF t]] h2]]
  note c3 = mp [OF conjunct2 [OF conjunct2 [OF t]] h3]
  have e1: "calls ma =
            [(0, ''configSaved'', JObj (config ma)), (1, ''configSaved'', JObj (config ma)),
             (0, ''configUpdated'', JObj (config ma)), (1, ''configUpdated'', JObj (config ma))]"
    by (simp add: c1) (simp add: example_manager_def)
  have e2: "calls (resetConfig example_manager) =
        [(0, ''configSaved'', JObj DEFAULT_CHART_CONFIG), (1, ''configSaved'', JObj DEFAULT_CHART_CONFIG),
         (0, ''configReset'', JObj DEFAULT_CHART_CONFIG), (1, ''configReset'', JObj DEFAULT_CHART_CONFIG)]"
    by (simp add: c2) (simp add: example_manager_def)
  have e3: "calls mb =
            [(0, ''configSaved'', JObj (config mb)), (1, ''configSaved'', JObj (config mb)),
             (0, ''themeApplied'',
              JObj [(''theme'', JStr (ustr ''light'')), (''config'', JObj (config mb))]),
             (1, ''themeApplied'',
              JObj [(''theme'', JStr (ustr ''light'')), (''config'', JObj (config mb))])]"
    by (simp add: c3) (simp add: example_manager_def)
  show ?thesis
    by (intro conjI exI [of _ ma] exI [of _ mb] ua ub acc q gp e1 e2 e3)
qed

text \<open>
  The claim as the specification states it speaks of every call that succeeds. A call
  of \<^verbatim>\<open>resetConfig\<close> or \<^verbatim>\<open>updateConfig\<close> returns as well when local storage rejects the
  write: \<^verbatim>\<open>saveConfig\<close> catches the exception before it has sent \<open>configSaved\<close>, and
  every listener is called once, with the event of the operation alone.
\<close>

theorem mutations_notify_once_when_rejected:
  "map (\<lambda>c. (fst c, fst (snd c))) (calls (resetConfig example_manager_storage_full))
     = [(0, ''configReset''), (1, ''configReset'')]
   \<and> (case updateConfig (JObj [(''radar'', JObj [(''levels'', JNum 3)])])
              example_manager_storage_full of
        Inl e \<Rightarrow> []
      | Inr m' \<Rightarrow> map (\<lambda>c. (fst c, fst (snd c))) (calls m'))
     = [(0, ''configUpdated''), (1, ''configUpdated'')]"
proof -
  have q: "quiet example_manager_storage_full"
    by (simp add: quiet_def example_manager_storage_full_def example_manager_def)
  have r: "map (\<lambda>c. (fst c, fst (snd c))) (calls (resetConfig example_manager_storage_full))
             = [(0, ''configReset''), (1, ''configReset'')]"
    by (simp add: resetConfig_quiet(2) [OF q])
       (simp add: example_manager_storage_full_def example_manager_def)
  have "\<exists>m'. updateConfig (JObj [(''radar'', JObj [(''levels'', JNum 3)])])
                example_manager_storage_full = Inr m'"
    by (simp add: updateConfig_def mergeConfig_def merge.simps leaves_model_def inherited_def
          Object_prototype_names_def or_empty_def get_def Let_def
          example_manager_storage_full_def example_manager_def example_config_def)
  then obtain m' where u: "updateConfig (JObj [(''radar'', JObj [(''levels'', JNum 3)])])
                example_manager_storage_full = Inr m'" ..
  from updateConfig_effect(5) [OF u q]
  have "map (\<lambda>c. (fst c, fst (snd c))) (calls m') = [(0, ''configUpdated''), (1, ''configUpdated'')]"
    by (simp add: example_manager_storage_full_def example_manager_def comp_def)
  with u r show ?thesis by simp
qed

section \<open>The radar chart\<close>

lemma spokes_append: "spokes (xs @ ys) = spokes xs @ spokes ys"
  by (induction xs rule: spokes.induct) simp_all

lemma spokes_draw_axis:
  "spokes (draw_axis centerX centerY radius hovered n e) =
     [(centerX, centerY, centerX + cos (axis_angle n (fst e)) * radius,
       centerY + sin (axis_angle n (fst e)) * radius)]"
  by (simp add: draw_axis_def Let_def spokes_append)

lemma spokes_concat_draw_axis:
  "spokes (concat (map (draw_axis centerX centerY radius hovered n) (enumerate k xs))) =
     map (\<lambda>i. (centerX, centerY, centerX + cos (axis_angle n i) * radius,
                centerY + sin (axis_angle n i) * radius)) [k..<k + length xs]"
proof (induction xs arbitrary: k)
  case Nil
  show ?case by simp
next
  case (Cons x xs)
  have "[k..<k + length (x # xs)] = k # [Suc k..<Suc k + length xs]"
    by (subst upt_rec) simp
  with Cons.IH [of "Suc k"] show ?case
    by (simp add: spokes_append spokes_draw_axis)
qed

lemma spokes_drawAxes:
  "spokes (drawAxes centerX centerY radius hovered abilities) =
     map (\<lambda>i. (centerX, centerY,
                centerX + cos (axis_angle (length abilities) i) * radius,
                centerY + sin (axis_angle (length abilities) i) * radius))
         [0..<length abilities]"
  using spokes_concat_draw_axis [of centerX centerY radius hovered "length abilities" 0 abilities]
  by (simp add: drawAxes_def)

lemma axis_angle_step:
  "0 < n \<Longrightarrow> axis_angle n (Suc i) - axis_angle n i = 2 * pi / real n"
  unfolding axis_angle_def by (simp add: field_simps)

lemma axis_angle_three:
  "axis_angle 3 0 = - (pi / 2)" "axis_angle 3 (Suc 0) = pi / 6" "axis_angle 3 2 = 5 * pi / 6"
  unfolding axis_angle_def by (simp_all add: field_simps)

lemma degrees_three:
  "degrees (- (pi / 2)) = - 90" "degrees (pi / 6) = 30" "degrees (5 * pi / 6) = 150"
  by (simp_all add: degrees_def field_simps)

lemma cos_150: "cos (5 * pi / 6) = - (sqrt 3 / 2)"
proof -
  have e: "5 * pi / 6 = pi - pi / 6" by simp
  show ?thesis unfolding e by (simp only: cos_pi_minus cos_30)
qed

lemma sin_150: "sin (5 * pi / 6) = 1 / 2"
proof -
  have e: "5 * pi / 6 = pi - pi / 6" by simp
  show ?thesis unfolding e by (simp only: sin_pi_minus sin_30)
qed

lemma upt_three: "[0..<3] = [0, Suc 0, 2]"
  by (simp add: upt_conv_Cons numeral_3_eq_3 numeral_2_eq_2)

lemma length_abilities_of: "length (abilities_of labels) = length labels"
  by (simp add: abilities_of_def)

text \<open>
  C7. With \<open>n\<close> abilities, \<^verbatim>\<open>drawAxes\<close> draws \<open>n\<close> spokes from the centre, spoke \<open>i\<close>
  towards the angle \<open>i * 2\<pi>/n - \<pi>/2\<close>, and the angles of consecutive axes differ by
  \<open>2\<pi>/n\<close>. With three labels there are three spokes, at \<open>-90\<close>, \<open>30\<close> and \<open>150\<close>
  degrees: straight up, down to the right and down to the left on the canvas.
\<close>

theorem axes_evenly_spaced:
  "spokes (drawAxes centerX centerY radius hovered abilities) =
     map (\<lambda>i. (centerX, centerY,
                centerX + cos (axis_angle (length abilities) i) * radius,
                centerY + sin (axis_angle (length abilities) i) * radius))
         [0..<length abilities]
   \<and> (\<forall>i. Suc i < n \<longrightarrow> axis_angle n (Suc i) - axis_angle n i = 2 * pi / real n)
   \<and> (length labels = 3 \<longrightarrow>
        map (\<lambda>i. degrees (axis_angle 3 i)) [0..<3] = [- 90, 30, 150]
        \<and> spokes (drawAxes centerX centerY radius hovered (abilities_of labels)) =
            [(centerX, centerY, centerX, centerY - radius),
             (centerX, centerY, centerX + sqrt 3 / 2 * radius, centerY + radius / 2),
             (centerX, centerY, centerX - sqrt 3 / 2 * radius, centerY + radius / 2)])"
proof (intro conjI allI impI)
  show "spokes (drawAxes centerX centerY radius hovered abilities) =
     map (\<lambda>i. (centerX, centerY,
                centerX + cos (axis_angle (length abilities) i) * radius,
                centerY + sin (axis_angle (length abilities) i) * radius))
         [0..<length abilities]"
    by (rule spokes_drawAxes)
next
  fix i assume "Suc i < n"
  then have "0 < n" by simp
  then show "axis_angle n (Suc i) - axis_angle n i = 2 * pi / real n"
    by (rule axis_angle_step)
next
  show "map (\<lambda>i. degrees (axis_angle 3 i)) [0..<3] = [- 90, 30, 150]"
    by (simp add: upt_three axis_angle_three degrees_three)
  assume "length labels = 3"
  then have len: "length (abilities_of labels) = 3" by (simp add: length_abilities_of)
  show "spokes (drawAxes centerX centerY radius hovered (abilities_of labels)) =
            [(centerX, centerY, centerX, centerY - radius),
             (centerX, centerY, centerX + sqrt 3 / 2 * radius, centerY + radius / 2),
             (centerX, centerY, centerX - sqrt 3 / 2 * radius, centerY + radius / 2)]"
    by (simp add: spokes_drawAxes len upt_three axis_angle_three cos_30 sin_30 cos_150 sin_150)
qed

theorem axes_evenly_spaced_witness:
  "Suc 1 < (3::nat)
   \<and> axis_angle 3 (Suc 1) - axis_angle 3 1 = 2 * pi / real (3::nat)
   \<and> length [ustr ''A'', ustr ''B'', ustr ''C''] = 3
   \<and> map (\<lambda>i. degrees (axis_angle 3 i)) [0..<3] = [- 90, 30, 150]
   \<and> spokes (drawAxes 200 200 140 (- 1) (abilities_of [ustr ''A'', ustr ''B'', ustr ''C''])) =
        [(200, 200, 200, 200 - 140),
         (200, 200, 200 + sqrt 3 / 2 * 140, 200 + 140 / 2),
         (200, 200, 200 - sqrt 3 / 2 * 140, 200 + 140 / 2)]"
proof -
  note t = axes_evenly_spaced
    [of 200 200 140 "- 1" "[]" 3 "[ustr ''A'', ustr ''B'', ustr ''C'']"]
  have h1: "Suc 1 < (3::nat)" by simp
  have h2: "length [ustr ''A'', ustr ''B'', ustr ''C''] = 3" by simp
  note spacing = mp [OF spec [OF conjunct1 [OF conjunct2 [OF t]], of 1] h1]
  note three = mp [OF conjunct2 [OF conjunct2 [OF t]] h2]
  show ?thesis
    by (intro conjI h1 h2 spacing conjunct1 [OF three] conjunct2 [OF three])
qed

subsection \<open>The entry animation\<close>

lemma animationSpeed_pos: "0 < d \<Longrightarrow> 0 < animationSpeed (Some d)"
  by (simp add: animationSpeed_def Let_def)

lemma easeOutCubic_mono: "t \<le> u \<Longrightarrow> u \<le> 1 \<Longrightarrow> easeOutCubic t \<le> easeOutCubic u"
  by (simp add: easeOutCubic_def power_mono)

lemma easeOutCubic_le_one: "t \<le> 1 \<Longrightarrow> easeOutCubic t \<le> 1"
  by (simp add: easeOutCubic_def)

lemma easeOutCubic_zero: "easeOutCubic 0 = 0"
  by (simp add: easeOutCubic_def)

text \<open>One call of \<^verbatim>\<open>animate\<close> on a running animation.\<close>

lemma animate_step:
  assumes s: "0 < s" and p0: "0 \<le> animationProgress a" and p1: "animationProgress a < 1"
    and run: "isAnimating a" and st: "animate s t a = (a', requested)"
  shows "animationProgress a \<le> animationProgress a'"
    and "animationProgress a' \<le> 1"
    and "requested = isAnimating a'"
    and "isAnimating a' \<longleftrightarrow> animationProgress a' < 1"
    and "drawn a' = drawn a \<or> drawn a' = drawn a @ [easeOutCubic (animationProgress a')]"
proof -
  show "animationProgress a \<le> animationProgress a'"
  proof (cases "t - lastTime a < 16.67")
    case True
    with st show ?thesis by (simp add: animate_def Let_def)
  next
    case False
    then have "0 \<le> s * ((t - lastTime a) / 16.67)" using s by simp
    with False st p1 show ?thesis by (auto simp: animate_def Let_def)
  qed
  show "animationProgress a' \<le> 1"
    using st p1 by (auto simp: animate_def Let_def split: if_splits)
  show "requested = isAnimating a'"
    using st run by (auto simp: animate_def Let_def split: if_splits)
  show "isAnimating a' \<longleftrightarrow> animationProgress a' < 1"
    using st run p1 by (auto simp: animate_def Let_def split: if_splits)
  show "drawn a' = drawn a \<or> drawn a' = drawn a @ [easeOutCubic (animationProgress a')]"
    using st by (auto simp: animate_def Let_def split: if_splits)
qed

lemma frames_progress:
  "0 < s \<Longrightarrow> 0 \<le> animationProgress a \<Longrightarrow> animationProgress a < 1 \<Longrightarrow> isAnimating a \<Longrightarrow>
     sorted (map animationProgress (a # frames s ts a))
     \<and> (\<forall>x \<in> set (frames s ts a).
           animationProgress x \<le> 1 \<and> (animationProgress x = 1 \<longleftrightarrow> \<not> isAnimating x))"
proof (induction ts arbitrary: a)
  case Nil
  show ?case by simp
next
  case (Cons t ts)
  obtain a' requested where st: "animate s t a = (a', requested)" by (cases "animate s t a")
  note step = animate_step [OF Cons.prems st]
  show ?case
  proof (cases requested)
    case False
    with step have "animationProgress a' = 1" "\<not> isAnimating a'" by auto
    with False st step(1) show ?thesis by simp
  next
    case True
    with step have run': "isAnimating a'" and lt: "animationProgress a' < 1" by auto
    from Cons.prems(2) step(1) have ge: "0 \<le> animationProgress a'" by simp
    from Cons.IH [OF Cons.prems(1) ge lt run'] step(1) True st lt run'
    show ?thesis by auto
  qed
qed

lemma frames_drawn:
  "0 < s \<Longrightarrow> 0 \<le> animationProgress a \<Longrightarrow> animationProgress a < 1 \<Longrightarrow> isAnimating a \<Longrightarrow>
     x \<in> set (frames s ts a) \<Longrightarrow>
     \<exists>ds. drawn x = drawn a @ ds \<and> sorted ds
          \<and> (\<forall>v \<in> set ds. easeOutCubic (animationProgress a) \<le> v
                            \<and> v \<le> easeOutCubic (animationProgress x))"
proof (induction ts arbitrary: a)
  case Nil
  then show ?case by simp
next
  case (Cons t ts)
  obtain a' requested where st: "animate s t a = (a', requested)" by (cases "animate s t a")
  note step = animate_step [OF Cons.prems(1-4) st]
  from step(1,2) have e01: "easeOutCubic (animationProgress a) \<le> easeOutCubic (animationProgress a')"
    by (rule easeOutCubic_mono)
  have own: "\<exists>ds. drawn a' = drawn a @ ds \<and> sorted ds
          \<and> (\<forall>v \<in> set ds. easeOutCubic (animationProgress a) \<le> v
                            \<and> v \<le> easeOutCubic (animationProgress a'))"
    using step(5)
  proof
    assume "drawn a' = drawn a"
    then show ?thesis by (intro exI [of _ "[]"]) simp
  next
    assume "drawn a' = drawn a @ [easeOutCubic (animationProgress a')]"
    then show ?thesis using e01
      by (intro exI [of _ "[easeOutCubic (animationProgress a')]"]) simp
  qed
  show ?case
  proof (cases "x = a'")
    case True
    with own show ?thesis by simp
  next
    case False
    with Cons.prems(5) st have req: requested and mem: "x \<in> set (frames s ts a')"
      by (auto split: if_splits)
    with step have run': "isAnimating a'" and lt: "animationProgress a' < 1" by auto
    from Cons.prems(2) step(1) have ge: "0 \<le> animationProgress a'" by simp
    from Cons.IH [OF Cons.prems(1) ge lt run' mem] obtain ds' where
      d': "drawn x = drawn a' @ ds'" and s': "sorted ds'"
      and b': "\<forall>v \<in> set ds'. easeOutCubic (animationProgress a') \<le> v
                             \<and> v \<le> easeOutCubic (animationProgress x)"
      by blast
    from own obtain ds where d: "drawn a' = drawn a @ ds" and sd: "sorted ds"
      and b: "\<forall>v \<in> set ds. easeOutCubic (animationProgress a) \<le> v
                           \<and> v \<le> easeOutCubic (animationProgress a')"
      by blast
    from frames_progress [OF Cons.prems(1) ge lt run', of ts] mem
    have "animationProgress a' \<le> animationProgress x" and "animationProgress x \<le> 1"
      by auto
    then have e12: "easeOutCubic (animationProgress a') \<le> easeOutCubic (animationProgress x)"
      by (rule easeOutCubic_mono)
    have "drawn x = drawn a @ (ds @ ds')" by (simp add: d' d)
    moreover have "sorted (ds @ ds')"
      using sd s' b b' by (fastforce simp: sorted_append)
    moreover have "\<forall>v \<in> set (ds @ ds'). easeOutCubic (animationProgress a) \<le> v
                           \<and> v \<le> easeOutCubic (animationProgress x)"
      using b b' e01 e12 by fastforce
    ultimately show ?thesis by blast
  qed
qed

text \<open>
  C8. Let the configured duration be positive and let \<^verbatim>\<open>startAnimation\<close> start a run.
  Whatever the times of the callbacks, the value of \<^verbatim>\<open>animationProgress\<close> after each
  call of \<^verbatim>\<open>animate\<close> is at least the value after the call before, it is never above
  \<open>1\<close>, and it is \<open>1\<close> exactly when the run has ended. The values it holds while the
  chart is drawn (the eased progress) are non-decreasing from one drawing to the
  next and lie between \<open>0\<close> and \<open>1\<close>.
\<close>

theorem animationProgress_monotone:
  assumes "0 < d" and "\<not> isAnimating a"
  shows "sorted (map animationProgress
                   (startAnimation True now a
                    # frames (animationSpeed (Some d)) ts (startAnimation True now a)))
         \<and> (\<forall>x \<in> set (frames (animationSpeed (Some d)) ts (startAnimation True now a)).
               0 \<le> animationProgress x \<and> animationProgress x \<le> 1
               \<and> (animationProgress x = 1 \<longleftrightarrow> \<not> isAnimating x)
               \<and> (\<exists>ds. drawn x = drawn a @ ds \<and> sorted ds \<and> (\<forall>v \<in> set ds. 0 \<le> v \<and> v \<le> 1)))"
proof -
  let ?s = "animationSpeed (Some d)"
  let ?a = "startAnimation True now a"
  have s: "0 < ?s" using assms(1) by (rule animationSpeed_pos)
  have p: "animationProgress ?a = 0" and r: "isAnimating ?a" and dr: "drawn ?a = drawn a"
    using assms(2) by (simp_all add: startAnimation_def)
  have p0: "0 \<le> animationProgress ?a" and p1: "animationProgress ?a < 1" by (simp_all add: p)
  note prog = frames_progress [OF s p0 p1 r, of ts]
  have "0 \<le> animationProgress x \<and> animationProgress x \<le> 1
         \<and> (animationProgress x = 1 \<longleftrightarrow> \<not> isAnimating x)
         \<and> (\<exists>ds. drawn x = drawn a @ ds \<and> sorted ds \<and> (\<forall>v \<in> set ds. 0 \<le> v \<and> v \<le> 1))"
    if mem: "x \<in> set (frames ?s ts ?a)" for x
  proof -
    from prog mem have le: "animationProgress x \<le> 1"
      and fin: "animationProgress x = 1 \<longleftrightarrow> \<not> isAnimating x" by auto
    from prog mem have ge: "0 \<le> animationProgress x" by (auto simp: p)
    from frames_drawn [OF s p0 p1 r mem] obtain ds where
      d: "drawn x = drawn a @ ds" and sd: "sorted ds"
      and b: "\<forall>v \<in> set ds. easeOutCubic (animationProgress ?a) \<le> v
                           \<and> v \<le> easeOutCubic (animationProgress x)"
      by (auto simp: dr)
    from b easeOutCubic_le_one [OF le] have "\<forall>v \<in> set ds. 0 \<le> v \<and> v \<le> 1"
      by (fastforce simp: p easeOutCubic_zero)
    with d sd le ge fin show ?thesis by blast
  qed
  with prog show ?thesis by blast
qed


theorem animationProgress_monotone_witness:
  "(0::real) < 800
   \<and> \<not> isAnimating \<lparr>animationProgress = 0, isAnimating = False, lastTime = 0, drawn = []\<rparr>
   \<and> map animationProgress
         (frames (animationSpeed (Some 800)) [10, 20, 420, 840, 900]
            (startAnimation True 0
               \<lparr>animationProgress = 0, isAnimating = False, lastTime = 0, drawn = []\<rparr>))
       = [0, 125 / 5001, 2625 / 5001, 1]
   \<and> sorted (map animationProgress
         (startAnimation True 0
            \<lparr>animationProgress = 0, isAnimating = False, lastTime = 0, drawn = []\<rparr>
          # frames (animationSpeed (Some 800)) [10, 20, 420, 840, 900]
              (startAnimation True 0
                 \<lparr>animationProgress = 0, isAnimating = False, lastTime = 0, drawn = []\<rparr>)))"
proof -
  let ?a = "\<lparr>animationProgress = 0, isAnimating = False, lastTime = 0, drawn = []\<rparr>"
  have h1: "(0::real) < 800" by simp
  have h2: "\<not> isAnimating ?a" by simp
  have ev: "map animationProgress
         (frames (animationSpeed (Some 800)) [10, 20, 420, 840, 900] (startAnimation True 0 ?a))
       = [0, 125 / 5001, 2625 / 5001, 1]"
    by (simp add: animationSpeed_def startAnimation_def animate_def Let_def)
  note t = animationProgress_monotone [OF h1 h2, of 0 "[10, 20, 420, 840, 900]"]
  show ?thesis
    by (intro conjI h1 h2 ev conjunct1 [OF t])
qed

subsection \<open>Hover detection\<close>

lemma distance_le_15:
  "distance p v \<le> 15 \<longleftrightarrow> (fst p - fst v)\<^sup>2 + (snd p - snd v)\<^sup>2 \<le> 225"
proof -
  have "sqrt ((fst p - fst v)\<^sup>2 + (snd p - snd v)\<^sup>2) \<le> sqrt 225
          \<longleftrightarrow> (fst p - fst v)\<^sup>2 + (snd p - snd v)\<^sup>2 \<le> 225"
    by (rule real_sqrt_le_iff)
  moreover have "sqrt 225 = 15" using real_sqrt_abs [of 15] by simp
  ultimately show ?thesis by (simp add: distance_def)
qed

lemma distance_gt_30:
  "distance u v > 30 \<longleftrightarrow> (fst u - fst v)\<^sup>2 + (snd u - snd v)\<^sup>2 > 900"
proof -
  have "sqrt 900 < sqrt ((fst u - fst v)\<^sup>2 + (snd u - snd v)\<^sup>2)
          \<longleftrightarrow> 900 < (fst u - fst v)\<^sup>2 + (snd u - snd v)\<^sup>2"
    by (rule real_sqrt_less_iff)
  moreover have "sqrt 900 = 30" using real_sqrt_abs [of 30] by simp
  ultimately show ?thesis by (simp add: distance_def)
qed

lemma distance_triangle: "distance u v \<le> distance p u + distance p v"
proof -
  have "sqrt (((fst u - fst p) + (fst p - fst v))\<^sup>2 + ((snd u - snd p) + (snd p - snd v))\<^sup>2)
          \<le> sqrt ((fst u - fst p)\<^sup>2 + (snd u - snd p)\<^sup>2)
            + sqrt ((fst p - fst v)\<^sup>2 + (snd p - snd v)\<^sup>2)"
    by (rule real_sqrt_sum_squares_triangle_ineq)
  moreover have "(fst u - fst p)\<^sup>2 = (fst p - fst u)\<^sup>2" "(snd u - snd p)\<^sup>2 = (snd p - snd u)\<^sup>2"
    by (simp_all add: power2_commute)
  ultimately show ?thesis by (simp add: distance_def)
qed

lemma hover_loop_none:
  "\<forall>v \<in> set vs. \<not> distance p v \<le> 15 \<Longrightarrow> hover_loop p vs index acc = acc"
  by (induction vs arbitrary: index acc) simp_all

lemma hover_loop_unique:
  "i < length vs \<Longrightarrow> distance p (vs ! i) \<le> 15
     \<Longrightarrow> \<forall>j < length vs. j \<noteq> i \<longrightarrow> \<not> distance p (vs ! j) \<le> 15
     \<Longrightarrow> hover_loop p vs index acc = int (index + i)"
proof (induction vs arbitrary: i index acc)
  case Nil
  then show ?case by simp
next
  case (Cons v vs)
  show ?case
  proof (cases i)
    case 0
    have "\<forall>w \<in> set vs. \<not> distance p w \<le> 15"
    proof
      fix w assume "w \<in> set vs"
      then obtain j where "j < length vs" "vs ! j = w" by (auto simp: in_set_conv_nth)
      with Cons.prems(3) [rule_format, of "Suc j"] 0 show "\<not> distance p w \<le> 15" by auto
    qed
    from hover_loop_none [OF this] Cons.prems(2) 0 show ?thesis by simp
  next
    case (Suc k)
    with Cons.prems have k: "k < length vs" and dk: "distance p (vs ! k) \<le> 15" by simp_all
    have others: "\<forall>j < length vs. j \<noteq> k \<longrightarrow> \<not> distance p (vs ! j) \<le> 15"
    proof (intro allI impI)
      fix j assume "j < length vs" "j \<noteq> k"
      with Cons.prems(3) [rule_format, of "Suc j"] Suc show "\<not> distance p (vs ! j) \<le> 15" by auto
    qed
    from Cons.prems(3) [rule_format, of 0] Suc have "\<not> distance p v \<le> 15" by auto
    with Cons.IH [OF k dk others] Suc show ?thesis by simp
  qed
qed

lemma hoveredIndex_detectHover:
  "hoveredIndex (detectHover centerX centerY abilities p ch) =
     hover_loop p (vertices centerX centerY (min centerX centerY - 60) abilities) 0 (- 1)"
  by (simp add: detectHover_def Let_def)

lemma length_vertices: "length (vertices centerX centerY radius abilities) = length abilities"
  by (simp add: vertices_def)

text \<open>
  C9. The vertices are the points \<^verbatim>\<open>detectHover\<close> measures from: vertex \<open>i\<close> lies on
  axis \<open>i\<close> at the distance that the value of ability \<open>i\<close> gives. If every two
  vertices are more than 30 apart, a pointer within 15 of vertex \<open>i\<close> makes
  \<open>hoveredIndex\<close> equal to \<open>i\<close>; a pointer farther than 15 from every vertex makes it
  \<open>-1\<close>, whatever the distances between the vertices.
\<close>

theorem detectHover_selects_the_vertex:
  assumes "\<forall>i < length abilities. \<forall>j < length abilities. i \<noteq> j \<longrightarrow>
             distance (vertices centerX centerY (min centerX centerY - 60) abilities ! i)
                      (vertices centerX centerY (min centerX centerY - 60) abilities ! j) > 30"
  shows "(\<forall>i < length abilities.
            distance p (vertices centerX centerY (min centerX centerY - 60) abilities ! i) \<le> 15
            \<longrightarrow> hoveredIndex (detectHover centerX centerY abilities p ch) = int i)
         \<and> ((\<forall>i < length abilities.
               distance p (vertices centerX centerY (min centerX centerY - 60) abilities ! i) > 15)
            \<longrightarrow> hoveredIndex (detectHover centerX centerY abilities p ch) = - 1)"
proof (intro conjI allI impI)
  let ?vs = "vertices centerX centerY (min centerX centerY - 60) abilities"
  fix i assume i: "i < length abilities" and near: "distance p (?vs ! i) \<le> 15"
  have "\<forall>j < length ?vs. j \<noteq> i \<longrightarrow> \<not> distance p (?vs ! j) \<le> 15"
  proof (intro allI impI notI)
    fix j assume j: "j < length ?vs" and ne: "j \<noteq> i" and nearj: "distance p (?vs ! j) \<le> 15"
    from assms i j ne have "distance (?vs ! i) (?vs ! j) > 30" by (simp add: length_vertices)
    moreover from distance_triangle [of "?vs ! i" "?vs ! j" p] near nearj
    have "distance (?vs ! i) (?vs ! j) \<le> 30" by simp
    ultimately show False by simp
  qed
  with hover_loop_unique [of i ?vs p 0 "- 1"] i near
  show "hoveredIndex (detectHover centerX centerY abilities p ch) = int i"
    by (simp add: hoveredIndex_detectHover length_vertices)
next
  let ?vs = "vertices centerX centerY (min centerX centerY - 60) abilities"
  assume far: "\<forall>i < length abilities. distance p (?vs ! i) > 15"
  have "\<forall>v \<in> set ?vs. \<not> distance p v \<le> 15"
  proof
    fix v assume "v \<in> set ?vs"
    then obtain i where "i < length ?vs" "?vs ! i = v" by (auto simp: in_set_conv_nth)
    with far show "\<not> distance p v \<le> 15" by (fastforce simp: length_vertices)
  qed
  from hover_loop_none [OF this]
  show "hoveredIndex (detectHover centerX centerY abilities p ch) = - 1"
    by (simp add: hoveredIndex_detectHover)
qed

lemma axis_angle_two:
  "axis_angle (Suc (Suc 0)) 0 = - (pi / 2)" "axis_angle (Suc (Suc 0)) (Suc 0) = pi / 2"
  unfolding axis_angle_def by (simp_all add: field_simps)

lemma vertices_two:
  "vertices 200 200 (min 200 200 - 60) (abilities_of [ustr ''A'', ustr ''B''])
     = [(200, 71.2), (200, 323.2)]"
  by (simp add: vertices_def abilities_of_def make_ability_def defaultValues_def
        data_vertex_def axis_angle_two Let_def)

theorem detectHover_selects_the_vertex_witness:
  "vertices 200 200 (min 200 200 - 60) (abilities_of [ustr ''A'', ustr ''B''])
     = [(200, 71.2), (200, 323.2)]
   \<and> distance (200, 71.2) (200, 323.2) > 30
   \<and> distance (203, 75.2) (200, 71.2) \<le> 15
   \<and> hoveredIndex (detectHover 200 200 (abilities_of [ustr ''A'', ustr ''B'']) (203, 75.2)
                     \<lparr>hoveredIndex = - 1, redraws = 0, tooltip = None\<rparr>) = 0
   \<and> distance (0, 0) (200, 71.2) > 15
   \<and> distance (0, 0) (200, 323.2) > 15
   \<and> hoveredIndex (detectHover 200 200 (abilities_of [ustr ''A'', ustr ''B'']) (0, 0)
                     \<lparr>hoveredIndex = 0, redraws = 1, tooltip = Some 0\<rparr>) = - 1"
proof -
  let ?ab = "abilities_of [ustr ''A'', ustr ''B'']"
  let ?vs = "vertices 200 200 (min 200 200 - 60) ?ab"
  have len: "length ?ab = 2" by (simp add: length_abilities_of)
  have v0: "?vs ! 0 = (200, 71.2)" and v1: "?vs ! Suc 0 = (200, 323.2)"
    unfolding vertices_two by simp_all
  have two: "i < 2 \<longleftrightarrow> i = 0 \<or> i = 1" for i :: nat by auto
  have d01: "distance (200, 71.2) (200, 323.2) > 30" by (simp add: distance_gt_30 power2_eq_square)
  have d10: "distance (200, 323.2) (200, 71.2) > 30" by (simp add: distance_gt_30 power2_eq_square)
  have near: "distance (203, 75.2) (200, 71.2) \<le> 15" by (simp add: distance_le_15 power2_eq_square)
  have f0: "distance (0, 0) (200, 71.2) > 15" and f1: "distance (0, 0) (200, 323.2) > 15"
    by (simp_all add: not_le [symmetric] distance_le_15 power2_eq_square)
  have apart: "\<forall>i < length ?ab. \<forall>j < length ?ab. i \<noteq> j \<longrightarrow> distance (?vs ! i) (?vs ! j) > 30"
    unfolding len two vertices_two using d01 d10 by auto
  note t1 = detectHover_selects_the_vertex [OF apart, of "(203, 75.2)"
      "\<lparr>hoveredIndex = - 1, redraws = 0, tooltip = None\<rparr>"]
  note t2 = detectHover_selects_the_vertex [OF apart, of "(0, 0)"
      "\<lparr>hoveredIndex = 0, redraws = 1, tooltip = Some 0\<rparr>"]
  have "0 < length ?ab" by (simp add: len)
  moreover have "distance (203, 75.2) (?vs ! 0) \<le> 15" unfolding v0 by (rule near)
  ultimately have r1: "hoveredIndex (detectHover 200 200 ?ab (203, 75.2)
                     \<lparr>hoveredIndex = - 1, redraws = 0, tooltip = None\<rparr>) = 0"
    using conjunct1 [OF t1] by fastforce
  have "\<forall>i < length ?ab. distance (0, 0) (?vs ! i) > 15"
    unfolding len two vertices_two using f0 f1 by auto
  from mp [OF conjunct2 [OF t2] this]
  have r2: "hoveredIndex (detectHover 200 200 ?ab (0, 0)
                     \<lparr>hoveredIndex = 0, redraws = 1, tooltip = Some 0\<rparr>) = - 1" .
  show ?thesis
    by (intro conjI vertices_two d01 near r1 f0 f1 r2)
qed

end
